theory Spec2Isabelle
  imports Main "HOL-Library.Sublist" "HOL-Library.Code_Target_Nat"
begin

section \<open>JavaScript strings\<close>

text \<open>
  A JavaScript string is a sequence of UTF-16 code units. The formatter of
  \<^verbatim>\<open>App.js\<close> tests lines against the bullet characters U+2022 and U+25E6, which
  do not fit a byte, so a string is modelled as the list of its code units, each a natural
  number. \<open>js\<close> turns an ASCII literal into that representation.
\<close>

type_synonym jsstring = "nat list"

definition js :: "string \<Rightarrow> jsstring" where
  "js s = map of_char s"

text \<open>
  \<^verbatim>\<open>String.prototype.trim\<close> removes WhiteSpace and LineTerminator code units
  from both ends; the regular-expression class \<^verbatim>\<open>\s\<close> is the same set: TAB, LF,
  VT, FF, CR, SP, NBSP, U+1680, U+2000..U+200A, U+2028, U+2029, U+202F, U+205F, U+3000, U+FEFF.
\<close>

definition isWhiteSpace :: "nat \<Rightarrow> bool" where
  "isWhiteSpace c \<longleftrightarrow>
     c = 9 \<or> c = 10 \<or> c = 11 \<or> c = 12 \<or> c = 13 \<or> c = 32 \<or> c = 160 \<or> c = 5760 \<or>
     (8192 \<le> c \<and> c \<le> 8202) \<or> c = 8232 \<or> c = 8233 \<or> c = 8239 \<or> c = 8287 \<or>
     c = 12288 \<or> c = 65279"

definition trimStart :: "jsstring \<Rightarrow> jsstring" where
  "trimStart s = dropWhile isWhiteSpace s"

definition trimEnd :: "jsstring \<Rightarrow> jsstring" where
  "trimEnd s = rev (dropWhile isWhiteSpace (rev s))"

definition trim :: "jsstring \<Rightarrow> jsstring" where
  "trim s = trimStart (trimEnd s)"

text \<open>\<^verbatim>\<open>Array.prototype.join\<close> with a separator string.\<close>

fun join :: "jsstring \<Rightarrow> jsstring list \<Rightarrow> jsstring" where
  "join sep [] = []"
| "join sep [x] = x"
| "join sep (x # y # ys) = x @ sep @ join sep (y # ys)"

text \<open>
  \<^verbatim>\<open>String.prototype.split\<close> with a one-character separator: the empty string
  splits into one empty piece.
\<close>

fun split :: "nat \<Rightarrow> jsstring \<Rightarrow> jsstring list" where
  "split c [] = [[]]"
| "split c (x # xs) =
     (if x = c then [] # split c xs
      else (case split c xs of
              [] \<Rightarrow> [[x]]
            | l # ls \<Rightarrow> (x # l) # ls))"

text \<open>\<^verbatim>\<open>startsWith\<close>, \<^verbatim>\<open>endsWith\<close> and \<^verbatim>\<open>includes\<close>.\<close>

fun startsWith :: "jsstring \<Rightarrow> jsstring \<Rightarrow> bool" where
  "startsWith s [] = True"
| "startsWith [] (p # ps) = False"
| "startsWith (x # xs) (p # ps) = (x = p \<and> startsWith xs ps)"

definition endsWith :: "jsstring \<Rightarrow> jsstring \<Rightarrow> bool" where
  "endsWith s p = startsWith (rev s) (rev p)"

fun includesStr :: "jsstring \<Rightarrow> jsstring \<Rightarrow> bool" where
  "includesStr [] p = (p = [])"
| "includesStr (x # xs) p = (startsWith (x # xs) p \<or> includesStr xs p)"

section \<open>The Escaper: \<^verbatim>\<open>escapeHtml\<close>\<close>

text \<open>
  \<^verbatim>\<open>
  const escapeHtml = (text) => {
    if (!text) return '';
    const map = { '&': '&amp;', '<': '&lt;', '>': '&gt;', '"': '&quot;', "'": '&#039;' };
    return text.replace(/[&<>"']/g, (m) => map[m]);
  };
  \<close>
  The object \<^verbatim>\<open>map\<close> is a partial function on code units; the global replace
  visits the string from left to right and substitutes every code unit of the class.
\<close>

definition escapeMap :: "nat \<Rightarrow> jsstring option" where
  "escapeMap c =
     (if c = 38 then Some (js ''&amp;'')
      else if c = 60 then Some (js ''&lt;'')
      else if c = 62 then Some (js ''&gt;'')
      else if c = 34 then Some (js ''&quot;'')
      else if c = 39 then Some (js ''&#039;'')
      else None)"

fun replaceMeta :: "jsstring \<Rightarrow> jsstring" where
  "replaceMeta [] = []"
| "replaceMeta (c # cs) =
     (case escapeMap c of
        Some e \<Rightarrow> e @ replaceMeta cs
      | None \<Rightarrow> c # replaceMeta cs)"

definition escapeHtml :: "jsstring \<Rightarrow> jsstring" where
  "escapeHtml text = (if text = [] then [] else replaceMeta text)"

definition isMeta :: "nat \<Rightarrow> bool" where
  "isMeta c \<longleftrightarrow> c = 38 \<or> c = 60 \<or> c = 62 \<or> c = 34 \<or> c = 39"

section \<open>Render-unique identifiers\<close>

text \<open>
  \<^verbatim>\<open>const uniqueId = `${originalId}-${messageIndex}`;\<close>
  The message index is the position handed over by \<^verbatim>\<open>messages.map((message, index) => ...)\<close>,
  a non-negative integer below \<open>2^32\<close>; the template literal converts it with
  \<^verbatim>\<open>ToString\<close>, which for such a number is its decimal numeral without leading zeros.
\<close>

function numberToString :: "nat \<Rightarrow> jsstring" where
  "numberToString n =
     (if n < 10 then [48 + n] else numberToString (n div 10) @ [48 + n mod 10])"
  by pat_completeness auto
termination
  by (relation "measure id") auto

declare numberToString.simps [simp del]

definition uniqueId :: "jsstring \<Rightarrow> nat \<Rightarrow> jsstring" where
  "uniqueId originalId messageIndex = originalId @ js ''-'' @ numberToString messageIndex"


section \<open>Regular expressions of the extractor\<close>

text \<open>
  The patterns of \<^verbatim>\<open>parseMessage\<close>, of the bold conversion and of the body
  fall-back are sequences of literal characters, greedy stars over a negated one-character
  class (\<^verbatim>\<open>[^>]*\<close>) and lazy stars over the full class (\<^verbatim>\<open>[\s\S]*?\<close>) or
  over the class of the dot. They are run by the backtracking matcher of the language: a
  greedy star first tries to take one more character and falls back to the rest of the
  pattern, a lazy star first tries the rest of the pattern and only then takes one more
  character.
\<close>

datatype cls = AnyChar | NotChar nat | Dot

text \<open>
  \<open>Dot\<close> is the class of \<^verbatim>\<open>.\<close>: every code unit but the line terminators
  LF, CR, U+2028 and U+2029.
\<close>

fun classHas :: "cls \<Rightarrow> nat \<Rightarrow> bool" where
  "classHas AnyChar x = True"
| "classHas (NotChar c) x = (x \<noteq> c)"
| "classHas Dot x = (x \<noteq> 10 \<and> x \<noteq> 13 \<and> x \<noteq> 8232 \<and> x \<noteq> 8233)"

datatype item = Lit nat | Greedy cls | Lazy cls

text \<open>
  A literal is compared after \<^verbatim>\<open>Canonicalize\<close>, as under the flag
  \<^verbatim>\<open>i\<close> (without \<^verbatim>\<open>u\<close>), which compares upper-case forms and never maps a
  code unit from 128 on to one below 128. Every literal of the patterns is ASCII, so for the
  comparisons made here it is the ASCII case folding. The one pattern without the flag, of the
  bold conversion, has asterisks as its only literals, which the folding leaves alone.
\<close>

definition canonicalize :: "nat \<Rightarrow> nat" where
  "canonicalize c = (if 97 \<le> c \<and> c \<le> 122 then c - 32 else c)"

text \<open>
  \<open>matchHere p s\<close> is the length of the match the backtracking matcher finds for pattern
  \<open>p\<close> anchored at the start of \<open>s\<close>, or \<open>None\<close> when every alternative fails.
\<close>

fun matchHere :: "item list \<Rightarrow> jsstring \<Rightarrow> nat option" where
  "matchHere [] s = Some 0"
| "matchHere (Lit c # r) [] = None"
| "matchHere (Lit c # r) (x # xs) =
     (if canonicalize x = canonicalize c then map_option Suc (matchHere r xs) else None)"
| "matchHere (Lazy k # r) [] = matchHere r []"
| "matchHere (Lazy k # r) (x # xs) =
     (case matchHere r (x # xs) of
        Some n \<Rightarrow> Some n
      | None \<Rightarrow> if classHas k x then map_option Suc (matchHere (Lazy k # r) xs) else None)"
| "matchHere (Greedy k # r) [] = matchHere r []"
| "matchHere (Greedy k # r) (x # xs) =
     (if classHas k x then
        (case matchHere (Greedy k # r) xs of
           Some n \<Rightarrow> Some (Suc n)
         | None \<Rightarrow> matchHere r (x # xs))
      else matchHere r (x # xs))"

text \<open>
  \<^verbatim>\<open>text.match(re)\<close> for a pattern without the flag \<^verbatim>\<open>g\<close>: the leftmost
  position at which the pattern matches, with the length of the match there.
\<close>

fun regexExec :: "item list \<Rightarrow> jsstring \<Rightarrow> (nat \<times> nat) option" where
  "regexExec p [] = map_option (Pair 0) (matchHere p [])"
| "regexExec p (x # xs) =
     (case matchHere p (x # xs) of
        Some n \<Rightarrow> Some (0, n)
      | None \<Rightarrow> map_option (\<lambda>(i, n). (Suc i, n)) (regexExec p xs))"

definition lits :: "string \<Rightarrow> item list" where
  "lits s = map Lit (js s)"

text \<open>\<^verbatim>\<open>/<!DOCTYPE html>[\s\S]*?<\/html>/i\<close>\<close>

definition doctypeRe :: "item list" where
  "doctypeRe = lits ''<!DOCTYPE html>'' @ [Lazy AnyChar] @ lits ''</html>''"

text \<open>\<^verbatim>\<open>/<html[\s\S]*?<\/html>/i\<close>\<close>

definition htmlRe :: "item list" where
  "htmlRe = lits ''<html'' @ [Lazy AnyChar] @ lits ''</html>''"

text \<open>\<^verbatim>\<open>/<div[^>]*id="[^"]*"[^>]*>[\s\S]*?<script[\s\S]*?Plotly[\s\S]*?<\/script>/i\<close>\<close>

definition plotlyDivRe :: "item list" where
  "plotlyDivRe =
     lits ''<div'' @ [Greedy (NotChar 62)] @ lits ''id=\"'' @ [Greedy (NotChar 34)] @
     lits ''\"'' @ [Greedy (NotChar 62)] @ lits ''>'' @ [Lazy AnyChar] @
     lits ''<script'' @ [Lazy AnyChar] @ lits ''Plotly'' @ [Lazy AnyChar] @ lits ''</script>''"

section \<open>The Visualization Extractor: \<^verbatim>\<open>parseMessage\<close>\<close>

text \<open>
  \<^verbatim>\<open>indexOf\<close> gives the first position of a substring, or -1;
  \<^verbatim>\<open>substring\<close> clamps its arguments to the length of the string and swaps them
  when the first exceeds the second.
\<close>

fun indexOf :: "jsstring \<Rightarrow> jsstring \<Rightarrow> int" where
  "indexOf [] p = (if p = [] then 0 else -1)"
| "indexOf (x # xs) p =
     (if startsWith (x # xs) p then 0
      else (let k = indexOf xs p in if k < 0 then -1 else k + 1))"

definition clampIndex :: "jsstring \<Rightarrow> int \<Rightarrow> nat" where
  "clampIndex s k = (if k < 0 then 0 else min (nat k) (length s))"

definition substring :: "jsstring \<Rightarrow> int \<Rightarrow> int \<Rightarrow> jsstring" where
  "substring s a b =
     (let from = min (clampIndex s a) (clampIndex s b);
          to = max (clampIndex s a) (clampIndex s b)
      in take (to - from) (drop from s))"

definition substringFrom :: "jsstring \<Rightarrow> int \<Rightarrow> jsstring" where
  "substringFrom s a = drop (clampIndex s a) s"

record ParsedAnswer =
  ptext :: jsstring
  html :: "jsstring option"
  hasVisualization :: bool

text \<open>
  \<^verbatim>\<open>
  const htmlMatch = text.match(/<!DOCTYPE html>[\s\S]*?<\/html>/i) ||
                    text.match(/<html[\s\S]*?<\/html>/i) ||
                    text.match(/<div[^>]*id="[^"]*"[^>]*>[\s\S]*?<script[\s\S]*?Plotly[\s\S]*?<\/script>/i);
  \<close>
  A match is the pair of its position and its length; \<^verbatim>\<open>htmlMatch[0]\<close> is the
  matched span.
\<close>

definition htmlMatch :: "jsstring \<Rightarrow> (nat \<times> nat) option" where
  "htmlMatch s =
     (case regexExec doctypeRe s of
        Some m \<Rightarrow> Some m
      | None \<Rightarrow>
          (case regexExec htmlRe s of
             Some m \<Rightarrow> Some m
           | None \<Rightarrow> regexExec plotlyDivRe s))"

definition matched :: "jsstring \<Rightarrow> nat \<times> nat \<Rightarrow> jsstring" where
  "matched s m = take (snd m) (drop (fst m) s)"

text \<open>
  \<^verbatim>\<open>
  if (!text) return { text: '', html: null, hasVisualization: false };
  if (htmlMatch) {
    const htmlContent = htmlMatch[0];
    const textBefore = text.substring(0, text.indexOf(htmlMatch[0])).trim();
    const textAfter = text.substring(text.indexOf(htmlMatch[0]) + htmlMatch[0].length).trim();
    const combinedText = [textBefore, textAfter].filter(t => t).join('\n');
    return { text: combinedText, html: htmlContent, hasVisualization: true };
  }
  return { text: text, html: null, hasVisualization: false };
  \<close>
  The field \<^verbatim>\<open>text\<close> of the result is \<open>ptext\<close> here.
\<close>

definition parseMessage :: "jsstring \<Rightarrow> ParsedAnswer" where
  "parseMessage s =
     (if s = [] then \<lparr>ptext = [], html = None, hasVisualization = False\<rparr>
      else
        (case htmlMatch s of
           Some m \<Rightarrow>
             (let htmlContent = matched s m;
                  textBefore = trim (substring s 0 (indexOf s (matched s m)));
                  textAfter = trim (substringFrom s (indexOf s (matched s m) + int (length (matched s m))));
                  combinedText = join [10] (filter (\<lambda>t. t \<noteq> []) [textBefore, textAfter])
              in \<lparr>ptext = combinedText, html = Some htmlContent, hasVisualization = True\<rparr>)
         | None \<Rightarrow> \<lparr>ptext = s, html = None, hasVisualization = False\<rparr>))"

section \<open>Bold conversion\<close>


lemma matchHere_le: "matchHere p s = Some n \<Longrightarrow> n \<le> length s"
  by (induction p s arbitrary: n rule: matchHere.induct)
     (auto split: if_splits option.splits)


lemma regexExec_Some:
  "regexExec p s = Some (i, n) \<Longrightarrow>
     matchHere p (drop i s) = Some n \<and> i \<le> length s \<and> (\<forall>k<i. matchHere p (drop k s) = None)"
proof (induction s arbitrary: i)
  case Nil
  then show ?case by auto
next
  case (Cons x xs)
  show ?case
  proof (cases "matchHere p (x # xs)")
    case (Some a)
    with Cons.prems show ?thesis by simp
  next
    case None
    with Cons.prems obtain j where j: "regexExec p xs = Some (j, n)" and i: "i = Suc j"
      by auto
    from Cons.IH [OF j] i None show ?thesis by (auto simp: less_Suc_eq_0_disj)
  qed
qed

lemma regexExec_None:
  "regexExec p s = None \<Longrightarrow> k \<le> length s \<Longrightarrow> matchHere p (drop k s) = None"
proof (induction s arbitrary: k)
  case Nil
  then show ?case by auto
next
  case (Cons x xs)
  then show ?case by (cases k) (auto split: option.splits)
qed

lemma matchHere_two_lits:
  "matchHere (Lit a # Lit b # r) s = Some n \<Longrightarrow> 2 \<le> n"
  by (cases s; cases "tl s") (auto split: if_splits)

text \<open>
  \<^verbatim>\<open>escaped.replace(/\*\*(.*?)\*\*/g, '<strong>$1</strong>')\<close>: every match, found
  from left to right, each search starting where the previous match ended, is replaced by its
  group between the tags; the group is the match without its first two and last two characters.
\<close>

definition boldRe :: "item list" where
  "boldRe = lits ''**'' @ [Lazy Dot] @ lits ''**''"

function convertBold :: "jsstring \<Rightarrow> jsstring" where
  "convertBold s =
     (case regexExec boldRe s of
        None \<Rightarrow> s
      | Some (i, n) \<Rightarrow>
          take i s @ js ''<strong>'' @ take (n - 4) (drop (i + 2) s) @ js ''</strong>'' @
          convertBold (drop (i + n) s))"
  by pat_completeness auto
termination
proof (relation "measure length")
  show "wf (measure length)" by simp
next
  fix s :: jsstring and x2 :: "nat \<times> nat" and i n :: nat
  assume a: "regexExec boldRe s = Some x2" "(i, n) = x2"
  then have e: "regexExec boldRe s = Some (i, n)" by simp
  from regexExec_Some [OF e] have m: "matchHere boldRe (drop i s) = Some n" by simp
  then have "2 \<le> n"
    by (simp add: boldRe_def lits_def js_def matchHere_two_lits)
  moreover from matchHere_le [OF m] have "n \<le> length (drop i s)" .
  ultimately show "(drop (i + n) s, s) \<in> measure length" by simp
qed

declare convertBold.simps [simp del]

section \<open>The Table Converter: \<^verbatim>\<open>convertMarkdownTable\<close>\<close>

text \<open>
  \<^verbatim>\<open>/^[\s|:-]+$/.test(row)\<close>: the row is not empty and holds only white space,
  pipes, colons and hyphens.
\<close>

definition isSeparatorChar :: "nat \<Rightarrow> bool" where
  "isSeparatorChar c \<longleftrightarrow> isWhiteSpace c \<or> c = 124 \<or> c = 58 \<or> c = 45"

definition separatorTest :: "jsstring \<Rightarrow> bool" where
  "separatorTest row \<longleftrightarrow> row \<noteq> [] \<and> list_all isSeparatorChar row"

text \<open>
  \<^verbatim>\<open>
  let separatorIndex = -1;
  for (let j = 1; j < Math.min(rows.length, 5); j++) {
    const row = rows[j].trim();
    if (row.includes('|') && /^[\s|:-]+$/.test(row)) { separatorIndex = j; break; }
  }
  \<close>
\<close>

function findSeparator :: "jsstring list \<Rightarrow> nat \<Rightarrow> int" where
  "findSeparator rows j =
     (if j < min (length rows) 5 then
        (let row = trim (rows ! j) in
         if includesStr row [124] \<and> separatorTest row then int j
         else findSeparator rows (j + 1))
      else -1)"
  by pat_completeness auto
termination
  by (relation "measure (\<lambda>(rows, j). 5 - j)") auto

declare findSeparator.simps [simp del]

text \<open>
  \<^verbatim>\<open>
  const parseRow = (row) => {
    const parts = row.split('|').map(p => p.trim());
    if (parts.length > 0 && parts[0] === '' && row.trim().startsWith('|')) parts.shift();
    if (parts.length > 0 && parts[parts.length - 1] === '' && row.trim().endsWith('|')) parts.pop();
    return parts;
  };
  \<close>
\<close>

definition parseRow :: "jsstring \<Rightarrow> jsstring list" where
  "parseRow row =
     (let parts = map trim (split 124 row);
          parts1 = (if parts \<noteq> [] \<and> hd parts = [] \<and> startsWith (trim row) [124]
                    then tl parts else parts);
          parts2 = (if parts1 \<noteq> [] \<and> last parts1 = [] \<and> endsWith (trim row) [124]
                    then butlast parts1 else parts1)
      in parts2)"

definition thCell :: "jsstring \<Rightarrow> jsstring" where
  "thCell cell =
     (let escaped = escapeHtml cell; withBold = convertBold escaped
      in js ''<th>'' @ withBold @ js ''</th>'')"

definition tdCell :: "jsstring \<Rightarrow> jsstring" where
  "tdCell cell =
     (let escaped = escapeHtml cell; withBold = convertBold escaped
      in js ''<td>'' @ withBold @ js ''</td>'')"

definition trRow :: "jsstring \<Rightarrow> jsstring" where
  "trRow row =
     (let cells = join [] (map tdCell (parseRow row))
      in if cells \<noteq> [] then js ''<tr>'' @ cells @ js ''</tr>'' else [])"

text \<open>The template literal of the result, with its line breaks and indentation.\<close>

definition tableTemplate :: "jsstring \<Rightarrow> jsstring \<Rightarrow> jsstring" where
  "tableTemplate headerCells body =
     [10] @ js ''    <div class=\"table-wrapper\">'' @ [10] @
     js ''      <table class=\"markdown-table\">'' @ [10] @
     js ''        <thead><tr>'' @ headerCells @ js ''</tr></thead>'' @ [10] @
     js ''        <tbody>'' @ body @ js ''</tbody>'' @ [10] @
     js ''      </table>'' @ [10] @
     js ''    </div>'' @ [10] @
     js ''  ''"

definition noDataRow :: jsstring where
  "noDataRow = js ''<tr><td colspan=\"100%\">No data</td></tr>''"

text \<open>
  \<^verbatim>\<open>
  const rows = tableText.trim().split('\n').filter(row => row.trim());
  if (rows.length < 2) return null;
  ...
  const headerRow = rows[0];
  const dataRows = separatorIndex > 0 ? rows.slice(separatorIndex + 1) : rows.slice(1);
  const headerCells = parseRow(headerRow).map(cell => ...).join('');
  const bodyRows = dataRows
    .filter(row => row.trim() && row.includes('|'))
    .map(row => { ...; return cells ? `<tr>${cells}</tr>` : ''; })
    .filter(row => row)
    .join('');
  if (!headerCells) return null;
  return `... ${headerCells} ... ${bodyRows || '<tr><td colspan="100%">No data</td></tr>'} ...`;
  \<close>
  The result \<^verbatim>\<open>null\<close> is \<open>None\<close>.
\<close>

definition tableRows :: "jsstring \<Rightarrow> jsstring list" where
  "tableRows tableText = filter (\<lambda>row. trim row \<noteq> []) (split 10 (trim tableText))"

definition bodyRowList :: "jsstring list \<Rightarrow> jsstring list" where
  "bodyRowList dataRows =
     filter (\<lambda>row. row \<noteq> [])
       (map trRow (filter (\<lambda>row. trim row \<noteq> [] \<and> includesStr row [124]) dataRows))"

definition convertMarkdownTable :: "jsstring \<Rightarrow> jsstring option" where
  "convertMarkdownTable tableText =
     (let rows = tableRows tableText in
      if length rows < 2 then None
      else
        (let separatorIndex = findSeparator rows 1;
             headerRow = hd rows;
             dataRows = (if separatorIndex > 0 then drop (nat separatorIndex + 1) rows
                         else drop 1 rows);
             headerCells = join [] (map thCell (parseRow headerRow));
             bodyRows = join [] (bodyRowList dataRows)
         in if headerCells = [] then None
            else Some (tableTemplate headerCells
                         (if bodyRows \<noteq> [] then bodyRows else noDataRow))))"

section \<open>The Block Formatter: \<^verbatim>\<open>formatMessage\<close>\<close>

text \<open>
  \<^verbatim>\<open>let k = j; while (k < lines.length && lines[k].trim() === '') k++;\<close>
\<close>

function skipBlank :: "jsstring list \<Rightarrow> nat \<Rightarrow> nat" where
  "skipBlank lines k =
     (if k < length lines \<and> trim (lines ! k) = [] then skipBlank lines (k + 1) else k)"
  by pat_completeness auto
termination
  by (relation "measure (\<lambda>(lines, k). length lines - k)") auto

declare skipBlank.simps [simp del]

text \<open>
  The look-ahead loop of the table scan, started at line \<open>i\<close> with
  \<^verbatim>\<open>tableLines = [currentLine]\<close>, \<^verbatim>\<open>j = i + 1\<close> and
  \<^verbatim>\<open>foundSeparator = false\<close>. Its state is \<open>(j, tableLines, foundSeparator)\<close>.
  \<open>collectStep\<close> is one run of the loop body on \<^verbatim>\<open>nextLine = lines[j]\<close>: it
  gives the new state and whether the loop goes on (\<^verbatim>\<open>continue\<close> or the end of
  the body) or stops (\<^verbatim>\<open>break\<close>).
\<close>

definition collectStep ::
  "jsstring list \<Rightarrow> nat \<Rightarrow> nat \<Rightarrow> jsstring list \<Rightarrow> bool \<Rightarrow> bool \<times> nat \<times> jsstring list \<times> bool" where
  "collectStep lines i j tableLines foundSeparator =
     (let nextLine = lines ! j in
      if \<not> foundSeparator \<and> includesStr nextLine [124] \<and> separatorTest (trim nextLine) then
        (True, j + 1, tableLines @ [nextLine], True)
      else if foundSeparator then
        (if includesStr nextLine [124] \<and> trim nextLine \<noteq> [] then
           (True, j + 1, tableLines @ [nextLine], foundSeparator)
         else if trim nextLine = [] then
           (let k = skipBlank lines (j + 1) in
            if k < length lines \<and> \<not> includesStr (lines ! k) [124] then
              (False, j + 1, tableLines @ [nextLine], foundSeparator)
            else (True, j + 1, tableLines @ [nextLine], foundSeparator))
         else (False, j, tableLines, foundSeparator))
      else
        (if includesStr nextLine [124] \<and> trim nextLine \<noteq> [] then
           (True, j + 1, tableLines @ [nextLine], foundSeparator)
         else if trim nextLine = [] \<and> j < i + 3 then
           (True, j + 1, tableLines, foundSeparator)
         else (False, j, tableLines, foundSeparator)))"

lemma collectStep_continue:
  "collectStep lines i j tableLines foundSeparator = (True, j', r) \<Longrightarrow> j' = j + 1"
  by (auto simp: collectStep_def Let_def split: if_splits)

text \<open>\<^verbatim>\<open>while (j < lines.length && j < i + 50) { ... }\<close>\<close>

function collect ::
  "jsstring list \<Rightarrow> nat \<Rightarrow> nat \<Rightarrow> jsstring list \<Rightarrow> bool \<Rightarrow> nat \<times> jsstring list \<times> bool" where
  "collect lines i j tableLines foundSeparator =
     (if j < length lines \<and> j < i + 50 then
        (case collectStep lines i j tableLines foundSeparator of
           (True, j', tableLines', foundSeparator') \<Rightarrow> collect lines i j' tableLines' foundSeparator'
         | (False, state) \<Rightarrow> state)
      else (j, tableLines, foundSeparator))"
  by pat_completeness auto
termination
  apply (relation "measure (\<lambda>(lines, i, j, tableLines, foundSeparator). length lines - j)")
   apply simp
  subgoal for lines i j tableLines foundSeparator x y xa ya xb yb
    using collectStep_continue [of lines i j tableLines foundSeparator xa "(xb, yb)"]
    by auto
  done

declare collect.simps [simp del]

lemma collectStep_ge:
  "collectStep lines i j tableLines foundSeparator = (c, j', r) \<Longrightarrow> j \<le> j'"
  by (auto simp: collectStep_def Let_def split: if_splits)

lemma collect_ge: "j \<le> fst (collect lines i j tableLines foundSeparator)"
proof (induction lines i j tableLines foundSeparator rule: collect.induct)
  case (1 lines i j tableLines foundSeparator)
  show ?case
  proof (cases "j < length lines \<and> j < i + 50")
    case False
    then have "collect lines i j tableLines foundSeparator = (j, tableLines, foundSeparator)"
      by (subst collect.simps) auto
    then show ?thesis by simp
  next
    case True
    obtain c j' tl' f' where st: "collectStep lines i j tableLines foundSeparator = (c, j', tl', f')"
      by (cases "collectStep lines i j tableLines foundSeparator") auto
    from collectStep_ge [OF st] have jj: "j \<le> j'" .
    show ?thesis
    proof (cases c)
      case True
      from st True have st': "(True, j', tl', f') = collectStep lines i j tableLines foundSeparator"
        by simp
      from "1.IH" [OF \<open>j < length lines \<and> j < i + 50\<close> st' refl refl refl]
      have "j' \<le> fst (collect lines i j' tl' f')" .
      with jj st True \<open>j < length lines \<and> j < i + 50\<close> show ?thesis
        by (simp add: collect.simps [of lines i j])
    next
      case False
      with jj st True show ?thesis by (simp add: collect.simps [of lines i j])
    qed
  qed
qed

text \<open>\<^verbatim>\<open>(l.match(/\|/g) || []).length\<close>\<close>

definition pipeCount :: "jsstring \<Rightarrow> nat" where
  "pipeCount l = length (filter (\<lambda>c. c = 124) l)"

text \<open>
  The table attempt at a line that contains a pipe: the pair of the table markup and the
  line at which the scan goes on, or \<open>None\<close> when the line is to be treated as plain text.
  \<^verbatim>\<open>
  if (foundSeparator && tableLines.length >= 3) {
    const tableHTML = convertMarkdownTable(tableLines.join('\n'));
    if (tableHTML) { processedParts.push({ type: 'table', content: tableHTML }); i = j; continue; }
  }
  if (!foundSeparator && tableLines.length >= 2) {
    const pipeCounts = tableLines.map(l => (l.match(/\|/g) || []).length);
    const firstPipeCount = pipeCounts[0];
    const allSimilar = pipeCounts.every(count => Math.abs(count - firstPipeCount) <= 1);
    if (allSimilar && firstPipeCount >= 2) {
      const tableHTML = convertMarkdownTable(tableLines.join('\n'));
      if (tableHTML) { processedParts.push({ type: 'table', content: tableHTML }); i = j; continue; }
    }
  }
  \<close>
\<close>

definition collectTable :: "jsstring list \<Rightarrow> nat \<Rightarrow> nat \<times> jsstring list \<times> bool" where
  "collectTable lines i = collect lines i (i + 1) [lines ! i] False"

definition allSimilar :: "jsstring list \<Rightarrow> bool" where
  "allSimilar tableLines =
     (let pipeCounts = map pipeCount tableLines; firstPipeCount = hd pipeCounts
      in list_all (\<lambda>count. \<bar>int count - int firstPipeCount\<bar> \<le> 1) pipeCounts)"

definition tryTable :: "jsstring list \<Rightarrow> nat \<Rightarrow> (jsstring \<times> nat) option" where
  "tryTable lines i =
     (case collectTable lines i of
        (j, tableLines, foundSeparator) \<Rightarrow>
          (if foundSeparator then
             (if length tableLines \<ge> 3
              then map_option (\<lambda>tableHTML. (tableHTML, j)) (convertMarkdownTable (join [10] tableLines))
              else None)
           else
             (if length tableLines \<ge> 2 \<and> allSimilar tableLines \<and> pipeCount (hd tableLines) \<ge> 2
              then map_option (\<lambda>tableHTML. (tableHTML, j)) (convertMarkdownTable (join [10] tableLines))
              else None)))"

lemma tryTable_advances: "tryTable lines i = Some (h, j) \<Longrightarrow> i < j"
proof -
  assume a: "tryTable lines i = Some (h, j)"
  obtain j' tl f where c: "collectTable lines i = (j', tl, f)" by (cases "collectTable lines i")
  with a have "j' = j" by (auto simp: tryTable_def split: if_splits)
  moreover from collect_ge [of "i + 1" lines i "[lines ! i]" False] c have "i + 1 \<le> j'"
    by (simp add: collectTable_def)
  ultimately show ?thesis by simp
qed

datatype part = TablePart jsstring | LinePart jsstring

text \<open>
  The first pass: \<^verbatim>\<open>while (i < lines.length) { ... }\<close>, producing
  \<^verbatim>\<open>processedParts\<close>.
\<close>

function processLines :: "jsstring list \<Rightarrow> nat \<Rightarrow> part list" where
  "processLines lines i =
     (if i < length lines then
        (if includesStr (lines ! i) [124] then
           (case tryTable lines i of
              Some (tableHTML, j) \<Rightarrow> TablePart tableHTML # processLines lines j
            | None \<Rightarrow> LinePart (lines ! i) # processLines lines (i + 1))
         else LinePart (lines ! i) # processLines lines (i + 1))
      else [])"
  by pat_completeness auto
termination
proof (relation "measure (\<lambda>(lines, i). length lines - i)")
  show "wf (measure (\<lambda>(lines, i). length lines - i))" by simp
next
  fix lines :: "jsstring list" and i :: nat and x2 :: "jsstring \<times> nat" and tableHTML j
  assume "i < length lines" "tryTable lines i = Some x2" "(tableHTML, j) = x2"
  then have "tryTable lines i = Some (tableHTML, j)" by simp
  from tryTable_advances [OF this] \<open>i < length lines\<close>
  show "((lines, j), lines, i) \<in> measure (\<lambda>(lines, i). length lines - i)" by simp
qed auto

declare processLines.simps [simp del]

text \<open>
  \<^verbatim>\<open>trimmed.replace(/^#+\s*/g, '')\<close> and \<^verbatim>\<open>trimmed.replace(/^\<dots>\s*/, '')\<close>
  for the white bullet U+25E6: the anchored pattern matches at the start only.
\<close>

definition stripHashes :: "jsstring \<Rightarrow> jsstring" where
  "stripHashes s =
     (if startsWith s [35] then dropWhile isWhiteSpace (dropWhile (\<lambda>c. c = 35) s) else s)"

definition stripWhiteBullet :: "jsstring \<Rightarrow> jsstring" where
  "stripWhiteBullet s =
     (if startsWith s [9702] then dropWhile isWhiteSpace (drop 1 s) else s)"

text \<open>
  The fragments pushed for a part of type \<^verbatim>\<open>line\<close>; the bullet is U+2022, the
  white bullet U+25E6.
\<close>

definition formatLine :: "jsstring \<Rightarrow> jsstring list" where
  "formatLine line =
     (let trimmed = trim line in
      if startsWith trimmed [35] then
        (let content = trim (stripHashes trimmed) in
         if content \<noteq> [] then
           [js ''<div class=\"regular-line\" style=\"font-weight: 600; font-size: 1.1em; margin-top: 0px; margin-bottom: 0px;\">'' @
            convertBold (escapeHtml content) @ js ''</div>'']
         else [])
      else if startsWith trimmed [8226] then
        (let content = trim (substringFrom trimmed 1) in
         [js ''<div class=\"bullet-point\">'' @ convertBold (escapeHtml content) @ js ''</div>''])
      else if startsWith trimmed [42] \<and> \<not> startsWith trimmed [42, 42] then
        (let content = trim (substringFrom trimmed 1) in
         [js ''<div class=\"bullet-point\">'' @ convertBold (escapeHtml content) @ js ''</div>''])
      else if startsWith trimmed [9702] \<or>
              (startsWith line [32, 32, 32] \<and> \<not> startsWith trimmed [42] \<and>
               \<not> startsWith trimmed [8226]) then
        (let content = trim (stripWhiteBullet trimmed) in
         [js ''<div class=\"indented-item\">'' @ escapeHtml content @ js ''</div>''])
      else if trimmed \<noteq> [] then
        [js ''<div class=\"regular-line\">'' @ convertBold (escapeHtml trimmed) @ js ''</div>'']
      else [js ''<br>''])"

definition isTable :: "part \<Rightarrow> bool" where
  "isTable p = (case p of TablePart h \<Rightarrow> True | LinePart l \<Rightarrow> False)"

text \<open>
  The second pass, for the part at index \<open>idx\<close>: a table is set off by
  \<^verbatim>\<open><br>\<close> from a neighbour that is not a table.
\<close>

definition formatPart :: "part list \<Rightarrow> nat \<Rightarrow> jsstring list" where
  "formatPart processedParts idx =
     (case processedParts ! idx of
        TablePart content \<Rightarrow>
          (if idx > 0 \<and> \<not> isTable (processedParts ! (idx - 1)) then [js ''<br>''] else []) @
          [content] @
          (if idx + 1 < length processedParts \<and> \<not> isTable (processedParts ! (idx + 1))
           then [js ''<br>''] else [])
      | LinePart line \<Rightarrow> formatLine line)"

definition formatMessage :: "jsstring \<Rightarrow> jsstring" where
  "formatMessage s =
     (if s = [] then []
      else
        (let lines = split 10 s;
             processedParts = processLines lines 0;
             formattedParts = concat (map (formatPart processedParts) [0..<length processedParts])
         in join [] formattedParts))"

section \<open>The Visualization Mounter: \<^verbatim>\<open>VisualizationRenderer\<close>\<close>

text \<open>
  The effect of the component works on the browser: timers, the global \<^verbatim>\<open>Plotly\<close>,
  the \<^verbatim>\<open>DOMParser\<close>, the evaluation of script text. What the browser answers is
  a parameter of the model, the record \<open>browser\<close>; what the component does with the
  answers is the code of \<^verbatim>\<open>App.js\<close>. The mount point is the list of its child
  nodes.
\<close>

record element =
  elId :: jsstring
  cssText :: jsstring
  styleHeight :: jsstring
  styleWidth :: jsstring

record script =
  src :: jsstring
  textContent :: jsstring

text \<open>
  Of a body (or of the temporary \<^verbatim>\<open>div\<close> of the fall-back) the code asks
  \<^verbatim>\<open>querySelector('[id]')\<close> and \<^verbatim>\<open>querySelectorAll('script')\<close>; of the
  parsed document \<^verbatim>\<open>querySelectorAll('script')\<close> and \<^verbatim>\<open>querySelector('body')\<close>.
\<close>

record body =
  firstWithId :: "element option"
  bodyScripts :: "script list"

record document =
  docScripts :: "script list"
  docBody :: "body option"

datatype style = CssText jsstring | HeightWidth jsstring jsstring

text \<open>
  The children of the mount point: a chart container made by
  \<^verbatim>\<open>document.createElement('div')\<close> with its id and style, a script element made for
  the fall-back, or what an assignment to \<^verbatim>\<open>innerHTML\<close> put there.
\<close>

datatype node = ChartDiv jsstring style | ScriptNode jsstring | Markup jsstring

text \<open>
  What the \<^verbatim>\<open>try\<close> block does with a rewritten script text: the declarations of
  \<^verbatim>\<open>data\<close> and \<^verbatim>\<open>layout\<close> are found and parsed and
  \<^verbatim>\<open>Plotly.newPlot\<close> is called; or parsing or the call throws and the inner
  \<^verbatim>\<open>catch\<close> falls back to the script; or a declaration is missing and the script is
  run as it is; or something else throws and the outer \<^verbatim>\<open>catch\<close> gets the error
  with its message.
\<close>

datatype outcome = Plotted | ParseError | NoDeclarations | Thrown jsstring

text \<open>
  \<open>plotlyAt t\<close>: \<^verbatim>\<open>window.Plotly\<close> is set \<open>t\<close> milliseconds after the wait
  began. \<open>containerAtTimer\<close> and \<open>containerAfterWait\<close>: \<^verbatim>\<open>containerRef.current\<close>
  is set when the first timer fires and when the wait is over. \<open>rewriteIds\<close> is the
  replacement of the quoted original id by the unique id in a script text, \<open>None\<close> when
  \<^verbatim>\<open>new RegExp\<close> rejects the pattern built from the id.
\<close>

record browser =
  plotlyAt :: "nat \<Rightarrow> bool"
  containerAtTimer :: bool
  containerAfterWait :: bool
  parseFromString :: "jsstring \<Rightarrow> document"
  parseFragment :: "jsstring \<Rightarrow> body"
  rewriteIds :: "jsstring \<Rightarrow> jsstring \<Rightarrow> jsstring \<Rightarrow> jsstring option"
  runScript :: "jsstring \<Rightarrow> outcome"

text \<open>
  \<^verbatim>\<open>
  const waitForPlotly = () => new Promise((resolve) => {
    if (window.Plotly) { resolve(); }
    else {
      const checkInterval = setInterval(() => {
        if (window.Plotly) { clearInterval(checkInterval); resolve(); }
      }, 100);
      setTimeout(() => { clearInterval(checkInterval); resolve(); }, 5000);
    }
  });
  \<close>
  Timers are taken to fire when they are due. \<open>pollPlotly av k\<close> is the time at which the
  promise resolves when the first \<open>k - 1\<close> checks of the interval have failed: the
  \<open>k\<close>-th check is due at \<open>100 * k\<close>, and the timeout, set before, ends the wait at
  5000.
\<close>

function pollPlotly :: "(nat \<Rightarrow> bool) \<Rightarrow> nat \<Rightarrow> nat" where
  "pollPlotly av k =
     (if 50 \<le> k then 5000
      else if av (100 * k) then 100 * k
      else pollPlotly av (k + 1))"
  by pat_completeness auto
termination
  by (relation "measure (\<lambda>(av, k). 50 - k)") auto

declare pollPlotly.simps [simp del]

definition waitForPlotly :: "(nat \<Rightarrow> bool) \<Rightarrow> nat" where
  "waitForPlotly av = (if av 0 then 0 else pollPlotly av 1)"

definition plotlyError :: jsstring where
  "plotlyError = js ''<p style=\"color: red;\">Error: Plotly library failed to load</p>''"

definition invalidHtmlError :: jsstring where
  "invalidHtmlError = js ''<p style=\"color: red;\">Error: Invalid HTML structure</p>''"

definition noChartError :: jsstring where
  "noChartError = js ''<p style=\"color: red;\">Error: No chart container found in HTML</p>''"

definition noScriptError :: jsstring where
  "noScriptError = js ''<p style=\"color: red;\">Error: No script tag found in visualization HTML</p>''"

definition renderError :: "jsstring \<Rightarrow> jsstring" where
  "renderError message = js ''<p style=\"color: red;\">Error rendering chart: '' @ message @ js ''</p>''"

text \<open>
  \<^verbatim>\<open>html.match(/<body[^>]*>([\s\S]*?)<\/body>/i)\<close> and its group 1: the attributes
  end at the first \<^verbatim>\<open>>\<close> after \<^verbatim>\<open><body\<close>, the group lies between
  that character and the closing tag.
\<close>

definition bodyRe :: "item list" where
  "bodyRe = lits ''<body'' @ [Greedy (NotChar 62)] @ lits ''>'' @ [Lazy AnyChar] @ lits ''</body>''"

definition bodyGroup :: "jsstring \<Rightarrow> nat \<times> nat \<Rightarrow> jsstring" where
  "bodyGroup s m =
     (let start = fst m + 5 + length (takeWhile (\<lambda>c. c \<noteq> 62) (drop (fst m + 5) s)) + 1
      in take (fst m + snd m - 7 - start) (drop start s))"

text \<open>
  \<^verbatim>\<open>
  let scripts = doc.querySelectorAll('script');
  let bodyContent = doc.querySelector('body');
  if (!bodyContent) {
    const bodyMatch = html.match(/<body[^>]*>([\s\S]*?)<\/body>/i);
    if (bodyMatch) {
      const tempDiv = document.createElement('div');
      tempDiv.innerHTML = bodyMatch[1];
      bodyContent = tempDiv;
      scripts = tempDiv.querySelectorAll('script');
    }
  }
  \<close>
\<close>

definition findBody :: "browser \<Rightarrow> jsstring \<Rightarrow> body option \<times> script list" where
  "findBody env s =
     (let doc = parseFromString env s in
      case docBody doc of
        Some b \<Rightarrow> (Some b, docScripts doc)
      | None \<Rightarrow>
          (case regexExec bodyRe s of
             Some m \<Rightarrow>
               (let tempDiv = parseFragment env (bodyGroup s m)
                in (Some tempDiv, bodyScripts tempDiv))
           | None \<Rightarrow> (None, docScripts doc)))"

text \<open>
  \<^verbatim>\<open>
  if (chartDiv.style.cssText) { newChartDiv.style.cssText = chartDiv.style.cssText; }
  else {
    newChartDiv.style.height = chartDiv.style.height || '440px';
    newChartDiv.style.width = chartDiv.style.width || '100%';
  }
  \<close>
\<close>

definition copyStyle :: "element \<Rightarrow> style" where
  "copyStyle chartDiv =
     (if cssText chartDiv \<noteq> [] then CssText (cssText chartDiv)
      else HeightWidth
             (if styleHeight chartDiv \<noteq> [] then styleHeight chartDiv else js ''440px'')
             (if styleWidth chartDiv \<noteq> [] then styleWidth chartDiv else js ''100%''))"

text \<open>
  \<^verbatim>\<open>allScripts.forEach((script) => { if (!script.src && script.textContent) { ... } })\<close>
  on the state of the children of the mount point and \<^verbatim>\<open>scriptFound\<close>. An
  exception of \<^verbatim>\<open>new RegExp\<close> is outside the \<^verbatim>\<open>try\<close>: it ends the loop
  and leaves the function, and is the second component of the result.
\<close>

fun runScripts ::
  "browser \<Rightarrow> jsstring \<Rightarrow> jsstring \<Rightarrow> script list \<Rightarrow> node list \<times> bool \<Rightarrow>
   (node list \<times> bool) \<times> jsstring option" where
  "runScripts env originalId uid [] st = (st, None)"
| "runScripts env originalId uid (sc # scs) (children, scriptFound) =
     (if src sc = [] \<and> textContent sc \<noteq> [] then
        (case rewriteIds env (textContent sc) originalId uid of
           None \<Rightarrow> ((children, True), Some (js ''SyntaxError''))
         | Some scriptContent \<Rightarrow>
             (case runScript env scriptContent of
                Plotted \<Rightarrow> runScripts env originalId uid scs (children, True)
              | ParseError \<Rightarrow>
                  runScripts env originalId uid scs (children @ [ScriptNode scriptContent], True)
              | NoDeclarations \<Rightarrow>
                  runScripts env originalId uid scs (children @ [ScriptNode scriptContent], True)
              | Thrown message \<Rightarrow>
                  runScripts env originalId uid scs
                    ((if containerAfterWait env then [Markup (renderError message)] else children),
                     True)))
      else runScripts env originalId uid scs (children, scriptFound))"

text \<open>
  \<^verbatim>\<open>renderVisualization\<close>, from the end of the wait on: the new children of the
  mount point and the exception that leaves the function, if any.
\<close>

definition renderVisualization ::
  "browser \<Rightarrow> jsstring \<Rightarrow> nat \<Rightarrow> node list \<Rightarrow> node list \<times> jsstring option" where
  "renderVisualization env s messageIndex children =
     (if \<not> plotlyAt env (waitForPlotly (plotlyAt env)) then
        ((if containerAfterWait env then [Markup plotlyError] else children), None)
      else if \<not> containerAfterWait env then (children, None)
      else
        (case findBody env s of
           (None, scripts) \<Rightarrow> ([Markup invalidHtmlError], None)
         | (Some bodyContent, scripts) \<Rightarrow>
             (case firstWithId bodyContent of
                None \<Rightarrow> ([Markup noChartError], None)
              | Some chartDiv \<Rightarrow>
                  (let originalId = elId chartDiv;
                       uid = uniqueId originalId messageIndex;
                       newChartDiv = ChartDiv uid (copyStyle chartDiv)
                   in case runScripts env originalId uid scripts ([newChartDiv], False) of
                        ((children', scriptFound), Some e) \<Rightarrow> (children', Some e)
                      | ((children', scriptFound), None) \<Rightarrow>
                          (if \<not> scriptFound then ([Markup noScriptError], None)
                           else (children', None))))))"

text \<open>
  The effect and its timer:
  \<^verbatim>\<open>
  if (!html) { return; }
  const timer = setTimeout(() => {
    if (!containerRef.current) { console.error(...); return; }
    ...
    renderVisualization();
  }, 100);
  \<close>
\<close>

definition mountVisualization ::
  "browser \<Rightarrow> jsstring option \<Rightarrow> nat \<Rightarrow> node list \<Rightarrow> node list \<times> jsstring option" where
  "mountVisualization env htmlProp messageIndex children =
     (case htmlProp of
        None \<Rightarrow> (children, None)
      | Some s \<Rightarrow>
          (if s = [] then (children, None)
           else if \<not> containerAtTimer env then (children, None)
           else renderVisualization env s messageIndex children))"

definition isChartDiv :: "node \<Rightarrow> bool" where
  "isChartDiv n = (case n of ChartDiv i st \<Rightarrow> True | ScriptNode t \<Rightarrow> False | Markup m \<Rightarrow> False)"

text \<open>A script is inline when it has no \<^verbatim>\<open>src\<close> and some text.\<close>

definition inlineScript :: "script \<Rightarrow> bool" where
  "inlineScript sc \<longleftrightarrow> src sc = [] \<and> textContent sc \<noteq> []"

text \<open>
  Browsers for the examples: one in which Plotly never loads; one in which Plotly is there, the
  markup parses to a body whose first element with an id is a \<^verbatim>\<open>div\<close> named
  \<^verbatim>\<open>chart\<close> without inline style, with the given scripts, in which the quoted
  id of the script below is rewritten for message 0, and in which a script declares no
  \<^verbatim>\<open>data\<close> and \<^verbatim>\<open>layout\<close>.
\<close>

definition idleBrowser :: browser where
  "idleBrowser =
     \<lparr>plotlyAt = (\<lambda>t. False), containerAtTimer = True, containerAfterWait = True,
      parseFromString = (\<lambda>s. \<lparr>docScripts = [], docBody = None\<rparr>),
      parseFragment = (\<lambda>s. \<lparr>firstWithId = None, bodyScripts = []\<rparr>),
      rewriteIds = (\<lambda>t a b. Some t), runScript = (\<lambda>t. Plotted)\<rparr>"

definition chartElement :: element where
  "chartElement = \<lparr>elId = js ''chart'', cssText = [], styleHeight = [], styleWidth = []\<rparr>"

definition plotScript :: script where
  "plotScript = \<lparr>src = [], textContent = js ''Plotly.newPlot(\"chart\", data, layout);''\<rparr>"

definition chartMarkup :: jsstring where
  "chartMarkup =
     js ''<html><body><div id=\"chart\"></div><script>Plotly.newPlot(\"chart\", data, layout);</script></body></html>''"

definition readyBrowser :: "script list \<Rightarrow> browser" where
  "readyBrowser scripts =
     \<lparr>plotlyAt = (\<lambda>t. True), containerAtTimer = True, containerAfterWait = True,
      parseFromString =
        (\<lambda>s. \<lparr>docScripts = scripts,
              docBody = Some \<lparr>firstWithId = Some chartElement, bodyScripts = scripts\<rparr>\<rparr>),
      parseFragment = (\<lambda>s. \<lparr>firstWithId = None, bodyScripts = []\<rparr>),
      rewriteIds =
        (\<lambda>t a b. Some (if t = textContent plotScript \<and> a = js ''chart'' \<and> b = js ''chart-0''
                         then js ''Plotly.newPlot(\"chart-0\", data, layout);'' else t)),
      runScript = (\<lambda>t. NoDeclarations)\<rparr>"

section \<open>Notions used in the statements about tables\<close>

text \<open>
  The test both the look-ahead loop and the converter apply to recognise a separator: the
  line contains a pipe and, trimmed, consists of white space, pipes, colons and hyphens only.
\<close>

definition isSeparatorLine :: "jsstring \<Rightarrow> bool" where
  "isSeparatorLine l \<longleftrightarrow> includesStr l [124] \<and> separatorTest (trim l)"

text \<open>
  The Table Converter from the point where \<^verbatim>\<open>rows\<close> is known, so that
  \<open>convertMarkdownTable t = convertRows (tableRows t)\<close>.
\<close>

definition convertRows :: "jsstring list \<Rightarrow> jsstring option" where
  "convertRows rows =
     (if length rows < 2 then None
      else
        (let separatorIndex = findSeparator rows 1;
             dataRows = (if separatorIndex > 0 then drop (nat separatorIndex + 1) rows
                         else drop 1 rows);
             headerCells = concat (map thCell (parseRow (hd rows)));
             bodyRows = concat (bodyRowList dataRows)
         in if headerCells = [] then None
            else Some (tableTemplate headerCells
                         (if bodyRows \<noteq> [] then bodyRows else noDataRow))))"

text \<open>A run whose separator is the sixth line: a header, four rows, the separator, one row.\<close>

definition lateSeparator :: "jsstring list" where
  "lateSeparator = map js [''| H |'', ''| a |'', ''| b |'', ''| c |'', ''| d |'', ''|---|'', ''| 1 |'']"

text \<open>Two lines with one pipe each and no separator.\<close>

definition onePipeLines :: "jsstring list" where
  "onePipeLines = [js ''a|b'', js ''c|d'']"

text \<open>Two lines with two pipes each and no separator.\<close>

definition twoPipeText :: jsstring where
  "twoPipeText = join [10] [js ''a|b|c'', js ''d|e|f'']"

text \<open>A header, the separator right after it, a row, a blank line and another row.\<close>

definition wellFormedTable :: jsstring where
  "wellFormedTable = join [10] (map js [''| A | B |'', ''|---|---|'', ''| 1 | 2 |'', '''', ''| 3 | 4 |''])"

section \<open>Escaped output\<close>






text \<open>The image of the Escaper, and the parts of the first pass whose tables are well escaped.\<close>

definition escaped :: "jsstring \<Rightarrow> bool" where
  "escaped s \<longleftrightarrow> (\<exists>c. s = replaceMeta c)"









section \<open>Properties of the Escaper\<close>

lemma escapeHtml_replaceMeta: "escapeHtml s = replaceMeta s"
  by (simp add: escapeHtml_def)

lemma replaceMeta_append: "replaceMeta (a @ b) = replaceMeta a @ replaceMeta b"
  by (induction a) (simp_all split: option.splits)

lemma escapeMap_None: "\<not> isMeta c \<Longrightarrow> escapeMap c = None"
  by (simp add: escapeMap_def isMeta_def)

lemma escapeMap_cases:
  "escapeMap c = None \<or> (\<exists>e. escapeMap c = Some e \<and> 4 \<le> length e \<and> 38 \<in> set e)"
  by (simp add: escapeMap_def js_def)

lemma escapeMap_Some:
  "isMeta c \<Longrightarrow> \<exists>e. escapeMap c = Some e \<and> 4 \<le> length e \<and> 38 \<in> set e"
  using escapeMap_cases [of c] by (auto simp: escapeMap_def isMeta_def)

lemma replaceMeta_plain: "\<forall>c\<in>set s. \<not> isMeta c \<Longrightarrow> replaceMeta s = s"
  by (induction s) (simp_all add: escapeMap_None)

lemma replaceMeta_length: "length s \<le> length (replaceMeta s)"
proof (induction s)
  case Nil
  then show ?case by simp
next
  case (Cons c cs)
  from escapeMap_cases [of c] Cons show ?case by auto
qed

lemma replaceMeta_grows:
  "\<exists>c\<in>set s. isMeta c \<Longrightarrow> length s < length (replaceMeta s)"
proof (induction s)
  case Nil
  then show ?case by simp
next
  case (Cons c cs)
  show ?case
  proof (cases "isMeta c")
    case True
    then obtain e where e: "escapeMap c = Some e" "4 \<le> length e"
      using escapeMap_Some by blast
    with replaceMeta_length [of cs] show ?thesis by simp
  next
    case False
    with Cons.prems have "\<exists>c\<in>set cs. isMeta c" by auto
    with Cons.IH False show ?thesis by (simp add: escapeMap_None)
  qed
qed

lemma replaceMeta_keeps_amp:
  "\<exists>c\<in>set s. isMeta c \<Longrightarrow> \<exists>c\<in>set (replaceMeta s). isMeta c"
proof (induction s)
  case Nil
  then show ?case by simp
next
  case (Cons c cs)
  show ?case
  proof (cases "isMeta c")
    case True
    then obtain e where e: "escapeMap c = Some e" "38 \<in> set e"
      using escapeMap_Some by blast
    have "isMeta 38" by (simp add: isMeta_def)
    with e show ?thesis by auto
  next
    case False
    with Cons.prems have "\<exists>c\<in>set cs. isMeta c" by auto
    with Cons.IH False show ?thesis by (auto simp: escapeMap_None)
  qed
qed

text \<open>
  C6. The Escaper replaces each of the five metacharacters, wherever it occurs, by its
  entity and leaves every other code unit as it is; a string without metacharacters is
  returned unchanged. It is not idempotent: whenever the input holds one of the five
  characters, escaping the escaped s once more gives a different string.
\<close>

theorem escapeHtml_entities_not_idempotent:
  "escapeHtml (a @ [38] @ b) = escapeHtml a @ js ''&amp;'' @ escapeHtml b \<and>
   escapeHtml (a @ [60] @ b) = escapeHtml a @ js ''&lt;'' @ escapeHtml b \<and>
   escapeHtml (a @ [62] @ b) = escapeHtml a @ js ''&gt;'' @ escapeHtml b \<and>
   escapeHtml (a @ [34] @ b) = escapeHtml a @ js ''&quot;'' @ escapeHtml b \<and>
   escapeHtml (a @ [39] @ b) = escapeHtml a @ js ''&#039;'' @ escapeHtml b \<and>
   (\<not> isMeta c \<longrightarrow> escapeHtml (a @ [c] @ b) = escapeHtml a @ [c] @ escapeHtml b) \<and>
   ((\<forall>c\<in>set s. \<not> isMeta c) \<longrightarrow> escapeHtml s = s) \<and>
   ((\<exists>c\<in>set s. isMeta c) \<longrightarrow> escapeHtml (escapeHtml s) \<noteq> escapeHtml s)"
proof -
  have e: "\<And>c. escapeHtml (a @ c # b) =
      escapeHtml a @ (case escapeMap c of Some e \<Rightarrow> e | None \<Rightarrow> [c]) @ escapeHtml b"
    by (simp add: escapeHtml_replaceMeta replaceMeta_append split: option.splits)
  have "(\<exists>c\<in>set s. isMeta c) \<longrightarrow> escapeHtml (escapeHtml s) \<noteq> escapeHtml s"
  proof
    assume m: "\<exists>c\<in>set s. isMeta c"
    then have "\<exists>c\<in>set (replaceMeta s). isMeta c" by (rule replaceMeta_keeps_amp)
    then have "length (replaceMeta s) < length (replaceMeta (replaceMeta s))"
      by (rule replaceMeta_grows)
    then show "escapeHtml (escapeHtml s) \<noteq> escapeHtml s"
      by (auto simp: escapeHtml_replaceMeta)
  qed
  moreover have "(\<forall>c\<in>set s. \<not> isMeta c) \<longrightarrow> escapeHtml s = s"
    by (simp add: escapeHtml_replaceMeta replaceMeta_plain)
  moreover have "\<not> isMeta c \<longrightarrow> escapeHtml (a @ [c] @ b) = escapeHtml a @ [c] @ escapeHtml b"
    by (simp add: e escapeMap_None)
  ultimately show ?thesis
    by (simp add: e escapeMap_def)
qed

theorem escapeHtml_entities_not_idempotent_witness:
  "escapeHtml (js ''a<b'') = js ''a&lt;b'' \<and>
   escapeHtml (js ''plain'') = js ''plain'' \<and>
   escapeHtml (escapeHtml (js ''a<b'')) \<noteq> escapeHtml (js ''a<b'') \<and>
   escapeHtml (escapeHtml (js ''a<b'')) = js ''a&amp;lt;b''"
proof -
  have m: "\<exists>c\<in>set (js ''a<b''). isMeta c" by (simp add: js_def isMeta_def)
  have p: "\<forall>c\<in>set (js ''plain''). \<not> isMeta c" by (simp add: js_def isMeta_def)
  have pa: "\<forall>c\<in>set (js ''a''). \<not> isMeta c" by (simp add: js_def isMeta_def)
  have pb: "\<forall>c\<in>set (js ''b''). \<not> isMeta c" by (simp add: js_def isMeta_def)
  have "escapeHtml (js ''a<b'') = js ''a&lt;b''"
    using escapeHtml_entities_not_idempotent [of "js ''a''" "js ''b''" 0 "js ''a''"]
      escapeHtml_entities_not_idempotent [of "js ''a''" "js ''b''" 0 "js ''b''"] pa pb
    by (simp add: js_def)
  moreover have "escapeHtml (js ''plain'') = js ''plain''"
    using escapeHtml_entities_not_idempotent [of "[]" "[]" 0 "js ''plain''"] p by blast
  moreover have "escapeHtml (escapeHtml (js ''a<b'')) \<noteq> escapeHtml (js ''a<b'')"
    using escapeHtml_entities_not_idempotent [of "[]" "[]" 0 "js ''a<b''"] m by blast
  moreover have "escapeHtml (escapeHtml (js ''a<b'')) = js ''a&amp;lt;b''"
    by (simp add: escapeHtml_def escapeMap_def js_def)
  ultimately show ?thesis by blast
qed

section \<open>Properties of the Visualization Extractor\<close>
















lemma canonicalize_lt: "canonicalize x = canonicalize 60 \<longleftrightarrow> x = 60"
  by (auto simp: canonicalize_def)

lemma regexExec_no_lt: "60 \<notin> set s \<Longrightarrow> regexExec (Lit 60 # r) s = None"
  by (induction s) (simp_all add: canonicalize_lt)

lemma htmlMatch_no_lt: "60 \<notin> set s \<Longrightarrow> htmlMatch s = None"
  by (simp add: htmlMatch_def doctypeRe_def htmlRe_def plotlyDivRe_def lits_def js_def
        regexExec_no_lt)

text \<open>
  C9. When none of the three detection patterns matches anywhere in the answer,
  \<^verbatim>\<open>parseMessage\<close> returns the answer unchanged as prose, no markup, and no
  visualization. This is so, in particular, for every answer without the character
  \<^verbatim>\<open><\<close>.
\<close>

theorem parseMessage_no_match:
  "(regexExec doctypeRe s = None \<and> regexExec htmlRe s = None \<and> regexExec plotlyDivRe s = None \<longrightarrow>
      parseMessage s = \<lparr>ptext = s, html = None, hasVisualization = False\<rparr>) \<and>
   (60 \<notin> set s \<longrightarrow> parseMessage s = \<lparr>ptext = s, html = None, hasVisualization = False\<rparr>)"
proof (intro conjI impI)
  assume "regexExec doctypeRe s = None \<and> regexExec htmlRe s = None \<and> regexExec plotlyDivRe s = None"
  then show "parseMessage s = \<lparr>ptext = s, html = None, hasVisualization = False\<rparr>"
    by (simp add: parseMessage_def htmlMatch_def)
next
  assume "60 \<notin> set s"
  then show "parseMessage s = \<lparr>ptext = s, html = None, hasVisualization = False\<rparr>"
    by (simp add: parseMessage_def htmlMatch_no_lt)
qed

theorem parseMessage_no_match_witness:
  "regexExec doctypeRe (js ''Revenue grew 5% <b>'') = None \<and>
   regexExec htmlRe (js ''Revenue grew 5% <b>'') = None \<and>
   regexExec plotlyDivRe (js ''Revenue grew 5% <b>'') = None \<and>
   parseMessage (js ''Revenue grew 5% <b>'') =
     \<lparr>ptext = js ''Revenue grew 5% <b>'', html = None, hasVisualization = False\<rparr> \<and>
   parseMessage (js ''No chart today.'') =
     \<lparr>ptext = js ''No chart today.'', html = None, hasVisualization = False\<rparr>"
proof -
  let ?s = "js ''Revenue grew 5% <b>''"
  have h1: "regexExec doctypeRe ?s = None"
    by (simp add: doctypeRe_def lits_def js_def canonicalize_def)
  have h2: "regexExec htmlRe ?s = None"
    by (simp add: htmlRe_def lits_def js_def canonicalize_def)
  have h3: "regexExec plotlyDivRe ?s = None"
    by (simp add: plotlyDivRe_def lits_def js_def canonicalize_def)
  have h4: "60 \<notin> set (js ''No chart today.'')" by (simp add: js_def)
  from parseMessage_no_match [of ?s] h1 h2 h3
  have a: "parseMessage ?s = \<lparr>ptext = ?s, html = None, hasVisualization = False\<rparr>" by blast
  from parseMessage_no_match [of "js ''No chart today.''"] h4
  have b: "parseMessage (js ''No chart today.'') =
     \<lparr>ptext = js ''No chart today.'', html = None, hasVisualization = False\<rparr>" by blast
  from h1 h2 h3 a b show ?thesis by blast
qed

section \<open>Properties of the render-unique identifier\<close>





section \<open>Properties of the Table Converter and the Block Formatter\<close>

lemma join_Nil_concat: "join [] xs = concat xs"
  by (induction "[] :: nat list" xs rule: join.induct) simp_all

lemma join_Cons: "ys \<noteq> [] \<Longrightarrow> join sep (x # ys) = x @ sep @ join sep ys"
  by (cases ys) simp_all

lemma split_nonempty: "split c s \<noteq> []"
  by (induction s) (auto split: list.splits)

lemma split_Cons_other:
  "x \<noteq> c \<Longrightarrow> split c (x # xs) = (x # hd (split c xs)) # tl (split c xs)"
  using split_nonempty [of c xs] by (cases "split c xs") simp_all

lemma split_append_line:
  "c \<notin> set l \<Longrightarrow> split c (l @ c # s) = l # split c s"
  by (induction l) (simp_all add: split_Cons_other)

lemma split_line: "c \<notin> set l \<Longrightarrow> split c l = [l]"
  by (induction l) (simp_all add: split_Cons_other)

lemma split_join:
  "ls \<noteq> [] \<Longrightarrow> \<forall>l\<in>set ls. c \<notin> set l \<Longrightarrow> split c (join [c] ls) = ls"
proof (induction ls)
  case Nil
  then show ?case by simp
next
  case (Cons l ls)
  show ?case
  proof (cases ls)
    case Nil
    with Cons.prems show ?thesis by (simp add: split_line)
  next
    case (Cons a as)
    with Cons.prems Cons.IH show ?thesis by (simp add: split_append_line)
  qed
qed

lemma split_no_sep: "\<forall>l\<in>set (split c s). c \<notin> set l"
  by (induction s) (auto split: list.splits)

lemma includesStr_single: "includesStr s [c] \<longleftrightarrow> c \<in> set s"
  by (induction s) auto

lemma trimEnd_eq_Nil: "trimEnd s = [] \<longleftrightarrow> (\<forall>c\<in>set s. isWhiteSpace c)"
  by (auto simp: trimEnd_def dropWhile_eq_Nil_conv)

lemma trimStart_eq_Nil: "trimStart s = [] \<longleftrightarrow> (\<forall>c\<in>set s. isWhiteSpace c)"
  by (auto simp: trimStart_def dropWhile_eq_Nil_conv)

lemma trimEnd_Cons:
  "trimEnd (x # xs) = (if isWhiteSpace x \<and> (\<forall>c\<in>set xs. isWhiteSpace c) then [] else x # trimEnd xs)"
  by (auto simp: trimEnd_def dropWhile_append)

lemma set_trimEnd: "set (trimEnd s) \<subseteq> set s"
  unfolding trimEnd_def using set_dropWhileD by fastforce

lemma set_trimStart: "set (trimStart s) \<subseteq> set s"
  unfolding trimStart_def using set_dropWhileD by fastforce

lemma trim_eq_Nil: "trim s = [] \<longleftrightarrow> (\<forall>c\<in>set s. isWhiteSpace c)"
proof (induction s)
  case Nil
  show ?case by (simp add: trim_def trimStart_def trimEnd_def)
next
  case (Cons x xs)
  then show ?case
    by (auto simp: trim_def trimEnd_Cons trimStart_def trimEnd_eq_Nil)
qed

lemma trimStart_Nil: "trimStart [] = []"
  by (simp add: trimStart_def)

lemma trimEnd_Nil: "trimEnd [] = []"
  by (simp add: trimEnd_def)

lemma trim_Cons_ws: "isWhiteSpace x \<Longrightarrow> trim (x # s) = trim s"
proof (cases "\<forall>c\<in>set s. isWhiteSpace c")
  case True
  assume "isWhiteSpace x"
  with True have "trim (x # s) = []" by (simp add: trim_eq_Nil)
  moreover from True have "trim s = []" by (simp add: trim_eq_Nil)
  ultimately show ?thesis by simp
next
  case False
  assume "isWhiteSpace x"
  with False show ?thesis by (auto simp: trim_def trimEnd_Cons trimStart_def)
qed

lemma trim_dropWhile: "trim (dropWhile isWhiteSpace s) = trim s"
  by (induction s) (simp_all add: trim_Cons_ws)

lemma trimEnd_trimStart: "trimEnd (trimStart s) = trimStart (trimEnd s)"
proof (induction s)
  case Nil
  show ?case by (simp add: trimStart_Nil trimEnd_Nil)
next
  case (Cons x xs)
  show ?case
  proof (cases "isWhiteSpace x")
    case True
    show ?thesis
    proof (cases "\<forall>c\<in>set xs. isWhiteSpace c")
      case True
      with \<open>isWhiteSpace x\<close> have "trimStart (x # xs) = []" by (simp add: trimStart_eq_Nil)
      moreover from True \<open>isWhiteSpace x\<close> have "trimEnd (x # xs) = []" by (simp add: trimEnd_Cons)
      ultimately show ?thesis by (simp add: trimStart_Nil trimEnd_Nil)
    next
      case False
      with True Cons.IH show ?thesis by (auto simp: trimEnd_Cons trimStart_def)
    qed
  next
    case False
    then show ?thesis by (simp add: trimEnd_Cons trimStart_def)
  qed
qed

lemma trim_rev: "trim (rev s) = rev (trim s)"
proof -
  have "trim (rev s) = trimStart (rev (trimStart s))"
    by (simp add: trim_def trimEnd_def trimStart_def)
  also have "\<dots> = rev (trimEnd (trimStart s))"
    by (simp add: trimEnd_def trimStart_def)
  also have "\<dots> = rev (trim s)" by (simp add: trimEnd_trimStart trim_def)
  finally show ?thesis .
qed

lemma trim_trim: "trim (trim s) = trim s"
proof -
  have a: "trim (trimStart t) = trim t" for t
    by (simp add: trimStart_def trim_dropWhile)
  have "trim (trimEnd t) = trim t" for t
  proof -
    have "trim (trimEnd t) = rev (trim (trimStart (rev t)))"
      by (simp add: trimEnd_def trimStart_def trim_rev [symmetric])
    also have "\<dots> = trim t" by (simp add: a trim_rev)
    finally show ?thesis .
  qed
  with a show ?thesis by (simp add: trim_def)
qed

lemma split_rev: "split c (rev s) = rev (map rev (split c s))"
proof (induction s)
  case Nil
  show ?case by simp
next
  case (Cons x xs)
  have app: "split c (a @ [x]) = (if x = c then split c a @ [[]]
      else butlast (split c a) @ [last (split c a) @ [x]])" for a
  proof (induction a)
    case Nil
    show ?case by simp
  next
    case (Cons y ys)
    then show ?case
      using split_nonempty [of c ys] split_nonempty [of c "ys @ [x]"]
      by (cases "split c ys"; cases "split c (ys @ [x])") (auto split: if_splits)
  qed
  show ?case
  proof (cases "x = c")
    case True
    with Cons app [of "rev xs"] show ?thesis by simp
  next
    case False
    obtain l ls where s: "split c xs = l # ls" using split_nonempty [of c xs] by (cases "split c xs") auto
    with False Cons app [of "rev xs"] show ?thesis
      by (simp add: butlast_append last_append split: if_splits)
  qed
qed

lemma trim_Nil: "trim [] = []"
  by (simp add: trim_def trimStart_def trimEnd_def)

lemma rows_trimStart:
  "map trim (filter (\<lambda>l. trim l \<noteq> []) (split 10 (dropWhile isWhiteSpace t))) =
   map trim (filter (\<lambda>l. trim l \<noteq> []) (split 10 t))"
proof (induction t)
  case Nil
  show ?case by simp
next
  case (Cons x xs)
  show ?case
  proof (cases "isWhiteSpace x")
    case False
    then show ?thesis by simp
  next
    case True
    show ?thesis
    proof (cases "x = 10")
      case True
      with \<open>isWhiteSpace x\<close> Cons.IH show ?thesis by (simp add: trim_Nil)
    next
      case False
      with True Cons.IH show ?thesis
        using split_nonempty [of 10 xs]
        by (cases "split 10 xs") (simp_all add: trim_Cons_ws)
    qed
  qed
qed

lemma rows_trimEnd:
  "map trim (filter (\<lambda>l. trim l \<noteq> []) (split 10 (trimEnd t))) =
   map trim (filter (\<lambda>l. trim l \<noteq> []) (split 10 t))"
proof -
  have nb: "(trim (rev l) \<noteq> []) = (trim l \<noteq> [])" for l
    by (simp add: trim_rev)
  have r: "map trim (filter (\<lambda>l. trim l \<noteq> []) (split 10 (rev u))) =
      rev (map rev (map trim (filter (\<lambda>l. trim l \<noteq> []) (split 10 u))))" for u
    by (simp add: split_rev rev_map [symmetric] filter_map comp_def trim_rev nb rev_filter [symmetric])
  have "map trim (filter (\<lambda>l. trim l \<noteq> []) (split 10 (trimEnd t))) =
      rev (map rev (map trim (filter (\<lambda>l. trim l \<noteq> []) (split 10 (dropWhile isWhiteSpace (rev t))))))"
    unfolding trimEnd_def by (rule r)
  also have "\<dots> = rev (map rev (map trim (filter (\<lambda>l. trim l \<noteq> []) (split 10 (rev t)))))"
    by (simp only: rows_trimStart)
  also have "\<dots> = rev (map rev (rev (map rev (map trim (filter (\<lambda>l. trim l \<noteq> []) (split 10 t))))))"
    by (simp only: r)
  also have "\<dots> = map trim (filter (\<lambda>l. trim l \<noteq> []) (split 10 t))"
    by (simp add: rev_map comp_def)
  finally show ?thesis .
qed

lemma tableRows_trim:
  "map trim (tableRows t) = map trim (filter (\<lambda>l. trim l \<noteq> []) (split 10 t))"
  unfolding tableRows_def trim_def [of t] trimStart_def
  by (simp only: rows_trimStart rows_trimEnd)

lemma parts_trimStart:
  "\<not> isWhiteSpace c \<Longrightarrow>
   map trim (split c (dropWhile isWhiteSpace r)) = map trim (split c r)"
proof (induction r)
  case Nil
  show ?case by simp
next
  case (Cons x xs)
  show ?case
  proof (cases "isWhiteSpace x")
    case False
    then show ?thesis by simp
  next
    case True
    with Cons.prems have "x \<noteq> c" by auto
    with True Cons show ?thesis
      using split_nonempty [of c xs]
      by (cases "split c xs") (simp_all add: trim_Cons_ws)
  qed
qed

lemma parts_trim:
  assumes "\<not> isWhiteSpace c"
  shows "map trim (split c (trim r)) = map trim (split c r)"
proof -
  have r: "map trim (split c (rev u)) = rev (map rev (map trim (split c u)))" for u
    by (simp add: split_rev rev_map [symmetric] comp_def trim_rev)
  have "map trim (split c (trimEnd r)) =
      rev (map rev (map trim (split c (dropWhile isWhiteSpace (rev r)))))"
    unfolding trimEnd_def by (rule r)
  also have "\<dots> = rev (map rev (map trim (split c (rev r))))"
    by (simp only: parts_trimStart [OF assms])
  also have "\<dots> = rev (map rev (rev (map rev (map trim (split c r)))))"
    by (simp only: r)
  also have "\<dots> = map trim (split c r)"
    by (simp add: rev_map comp_def)
  finally have e: "map trim (split c (trimEnd r)) = map trim (split c r)" .
  show ?thesis
    unfolding trim_def [of r] trimStart_def
    by (simp only: parts_trimStart [OF assms] e)
qed

lemma pipe_not_ws: "\<not> isWhiteSpace 124"
  by (simp add: isWhiteSpace_def)

lemma parseRow_trim: "parseRow (trim r) = parseRow r"
  by (simp add: parseRow_def parts_trim [OF pipe_not_ws] trim_trim)

lemma set_trim_non_ws:
  "\<not> isWhiteSpace c \<Longrightarrow> c \<in> set (trim s) \<longleftrightarrow> c \<in> set s"
proof -
  assume c: "\<not> isWhiteSpace c"
  have a: "c \<in> set (dropWhile isWhiteSpace u) \<longleftrightarrow> c \<in> set u" for u
    using c by (induction u) auto
  show ?thesis
    unfolding trim_def trimStart_def trimEnd_def by (simp add: a)
qed

lemma includesStr_pipe_trim: "includesStr (trim s) [124] = includesStr s [124]"
  by (simp add: includesStr_single set_trim_non_ws [OF pipe_not_ws])

lemma convertMarkdownTable_rows: "convertMarkdownTable t = convertRows (tableRows t)"
  by (simp add: convertMarkdownTable_def convertRows_def Let_def join_Nil_concat)

lemma findSeparator_step:
  "findSeparator rows j =
     (if j < min (length rows) 5 then
        (if isSeparatorLine (trim (rows ! j)) then int j else findSeparator rows (j + 1))
      else -1)"
  by (subst findSeparator.simps)
     (simp add: Let_def isSeparatorLine_def trim_trim)

lemma isSeparatorLine_trim: "isSeparatorLine (trim l) = isSeparatorLine l"
  by (simp add: isSeparatorLine_def trim_trim includesStr_pipe_trim)

lemma findSeparator_cong:
  "map trim rows = map trim rows' \<Longrightarrow> findSeparator rows j = findSeparator rows' j"
proof (induction rows j rule: findSeparator.induct)
  case (1 rows j)
  from "1.prems" have len: "length rows = length rows'" by (metis length_map)
  show ?case
  proof (cases "j < min (length rows) 5")
    case False
    with len have "\<not> j < min (length rows') 5" by simp
    with False show ?thesis
      by (simp only: findSeparator_step [of rows j] findSeparator_step [of rows' j] if_False)
  next
    case True
    then have "j < length rows" by simp
    with "1.prems" len have t: "trim (rows ! j) = trim (rows' ! j)"
      by (metis nth_map)
    show ?thesis
    proof (cases "isSeparatorLine (trim (rows ! j))")
      case True
      from \<open>j < min (length rows) 5\<close> len have "j < min (length rows') 5" by simp
      with True t \<open>j < min (length rows) 5\<close> show ?thesis
        by (simp only: findSeparator_step [of rows j] findSeparator_step [of rows' j] if_True)
    next
      case False
      have "includesStr (trim (rows ! j)) [124] \<and> separatorTest (trim (rows ! j)) \<longleftrightarrow>
          isSeparatorLine (trim (rows ! j))"
        by (simp add: isSeparatorLine_def trim_trim)
      with False have n: "\<not> (includesStr (trim (rows ! j)) [124] \<and> separatorTest (trim (rows ! j)))"
        by simp
      from "1.IH" [OF True refl n "1.prems"]
      have "findSeparator rows (j + 1) = findSeparator rows' (j + 1)" .
      moreover from True len have "j < min (length rows') 5" by simp
      ultimately show ?thesis using False t True
        by (simp only: findSeparator_step [of rows j] findSeparator_step [of rows' j] if_True if_False)
    qed
  qed
qed

lemma findSeparator_range:
  "findSeparator rows j = -1 \<or>
   (\<exists>k. findSeparator rows j = int k \<and> j \<le> k \<and> k < min (length rows) 5 \<and>
        isSeparatorLine (rows ! k))"
proof (induction rows j rule: findSeparator.induct)
  case (1 rows j)
  show ?case
  proof (cases "j < min (length rows) 5")
    case False
    then have "findSeparator rows j = -1"
      by (simp only: findSeparator_step [of rows j] if_False)
    then show ?thesis by simp
  next
    case True
    show ?thesis
    proof (cases "isSeparatorLine (trim (rows ! j))")
      case s: True
      with True have "findSeparator rows j = int j"
        by (simp only: findSeparator_step [of rows j] if_True)
      with True s show ?thesis by (auto simp: isSeparatorLine_trim)
    next
      case False
      then have n: "\<not> (includesStr (trim (rows ! j)) [124] \<and> separatorTest (trim (rows ! j)))"
        by (simp add: isSeparatorLine_def trim_trim)
      from False True have e: "findSeparator rows j = findSeparator rows (j + 1)"
        by (simp only: findSeparator_step [of rows j] if_True if_False)
      from "1.IH" [OF True refl n] show ?thesis unfolding e by auto
    qed
  qed
qed

lemma findSeparator_none:
  "\<forall>k. j \<le> k \<and> k < min (length rows) 5 \<longrightarrow> \<not> isSeparatorLine (rows ! k) \<Longrightarrow>
   findSeparator rows j = -1"
  using findSeparator_range [of rows j] by auto

lemma findSeparator_at:
  "j < min (length rows) 5 \<Longrightarrow> isSeparatorLine (rows ! j) \<Longrightarrow> findSeparator rows j = int j"
  by (simp only: findSeparator_step [of rows j] isSeparatorLine_trim if_True)

lemma thCell_nonempty: "thCell c \<noteq> []"
  by (simp add: thCell_def js_def)

lemma tdCell_nonempty: "tdCell c \<noteq> []"
  by (simp add: tdCell_def js_def)

lemma concat_cells_Nil: "(\<And>c. f c \<noteq> []) \<Longrightarrow> concat (map f cs) = [] \<longleftrightarrow> cs = []"
  by (cases cs) auto

lemma trRow_eq:
  "trRow row = (if parseRow row = [] then []
                else js ''<tr>'' @ concat (map tdCell (parseRow row)) @ js ''</tr>'')"
proof -
  have "concat (map tdCell (parseRow row)) = [] \<longleftrightarrow> parseRow row = []"
    by (rule concat_cells_Nil) (rule tdCell_nonempty)
  then show ?thesis
    by (simp add: trRow_def Let_def join_Nil_concat del: concat_eq_Nil_conv)
qed

lemma trRow_Nil: "trRow row = [] \<longleftrightarrow> parseRow row = []"
  by (simp add: trRow_eq js_def)

lemma trRow_trim: "trRow (trim row) = trRow row"
  by (simp add: trRow_eq parseRow_trim)

lemma bodyRowList_eq:
  "bodyRowList dataRows =
     map trRow (filter (\<lambda>row. trim row \<noteq> [] \<and> includesStr row [124] \<and> parseRow row \<noteq> []) dataRows)"
  by (induction dataRows) (simp_all add: bodyRowList_def trRow_Nil)

lemma bodyRowList_cong:
  "map trim d = map trim d' \<Longrightarrow> bodyRowList d = bodyRowList d'"
proof (induction d arbitrary: d')
  case Nil
  then show ?case by simp
next
  case (Cons a d)
  then obtain b e where d': "d' = b # e" and ab: "trim a = trim b" and de: "map trim d = map trim e"
    by (cases d') auto
  from Cons.IH [OF de] have ih: "bodyRowList d = bodyRowList e" .
  have p: "parseRow a = parseRow b" by (metis ab parseRow_trim)
  have i: "includesStr a [124] = includesStr b [124]" by (metis ab includesStr_pipe_trim)
  have t: "trRow a = trRow b" by (metis ab trRow_trim)
  from ih show ?case unfolding d' bodyRowList_eq by (simp add: ab p i t)
qed

lemma convertRows_cong:
  assumes "map trim rows = map trim rows'"
  shows "convertRows rows = convertRows rows'"
proof -
  from assms have len: "length rows = length rows'" by (metis length_map)
  have fs: "findSeparator rows 1 = findSeparator rows' 1" by (rule findSeparator_cong [OF assms])
  have hdr: "length rows \<ge> 2 \<Longrightarrow> parseRow (hd rows) = parseRow (hd rows')"
  proof -
    assume "length rows \<ge> 2"
    with len obtain a ra b rb where "rows = a # ra" "rows' = b # rb"
      by (cases rows; cases rows') auto
    with assms have "trim a = trim b" "hd rows = a" "hd rows' = b" by auto
    then show ?thesis by (metis parseRow_trim)
  qed
  have dr: "bodyRowList (drop k rows) = bodyRowList (drop k rows')" for k
    by (rule bodyRowList_cong) (simp add: drop_map [symmetric] assms)
  show ?thesis
    using len fs hdr dr by (simp add: convertRows_def Let_def)
qed

lemma convertMarkdownTable_join:
  assumes "tls \<noteq> []" "\<forall>l\<in>set tls. 10 \<notin> set l"
  shows "convertMarkdownTable (join [10] tls) = convertRows (filter (\<lambda>l. trim l \<noteq> []) tls)"
proof -
  have "map trim (tableRows (join [10] tls)) = map trim (filter (\<lambda>l. trim l \<noteq> []) tls)"
    by (simp add: tableRows_trim split_join [OF assms])
  then show ?thesis
    unfolding convertMarkdownTable_rows by (rule convertRows_cong)
qed

lemma collect_invariant:
  assumes step: "\<And>j tls f c j' tls' f'. P j tls f \<Longrightarrow> j < length lines \<Longrightarrow> j < i + 50 \<Longrightarrow>
      collectStep lines i j tls f = (c, j', tls', f') \<Longrightarrow> P j' tls' f'"
  shows "P j tls f \<Longrightarrow> collect lines i j tls f = (j', tls', f') \<Longrightarrow> P j' tls' f'"
proof (induction n \<equiv> "length lines - j" arbitrary: j tls f rule: less_induct)
  case less
  note P0 = less.prems(1) and res = less.prems(2)
  show ?case
  proof (cases "j < length lines \<and> j < i + 50")
    case False
    then have "collect lines i j tls f = (j, tls, f)"
      by (subst collect.simps) auto
    with P0 res show ?thesis by simp
  next
    case True
    obtain c k tk fk where st: "collectStep lines i j tls f = (c, k, tk, fk)"
      by (cases "collectStep lines i j tls f") auto
    from True have jl: "j < length lines" "j < i + 50" by auto
    from step [OF P0 jl st] have P: "P k tk fk" .
    show ?thesis
    proof (cases c)
      case c: True
      with st collectStep_continue [of lines i j tls f k "(tk, fk)"] have k: "k = j + 1" by simp
      from True st c have "collect lines i j tls f = collect lines i k tk fk"
        by (subst collect.simps) simp
      with res have e: "collect lines i k tk fk = (j', tls', f')" by simp
      from k jl have "length lines - k < length lines - j" by arith
      from less.hyps [OF this P e] show ?thesis .
    next
      case c: False
      from True st c have "collect lines i j tls f = (k, tk, fk)"
        by (subst collect.simps) simp
      with res P show ?thesis by simp
    qed
  qed
qed

lemma pipe_line_nonblank: "includesStr l [124] \<Longrightarrow> trim l \<noteq> []"
  using pipe_not_ws by (auto simp: includesStr_single trim_eq_Nil)

lemma collectTable_bound:
  assumes "collectTable lines i = (j, tls, f)"
  shows "i < j \<and> j \<le> i + 50 \<and> length tls \<le> j - i"
proof -
  let ?P = "\<lambda>j tls f. i < j \<and> j \<le> i + 50 \<and> length tls \<le> j - i"
  have "?P j tls f"
  proof (rule collect_invariant [where P = ?P and lines = lines and i = i])
    show "?P (i + 1) [lines ! i] False" by simp
    show "collect lines i (i + 1) [lines ! i] False = (j, tls, f)"
      using assms by (simp add: collectTable_def)
  next
    fix j tls f c j' tls' f'
    assume "?P j tls f" "j < length lines" "j < i + 50"
      "collectStep lines i j tls f = (c, j', tls', f')"
    then show "?P j' tls' f'"
      by (auto simp: collectStep_def Let_def split: if_splits)
  qed
  then show ?thesis .
qed

lemma collectTable_lines:
  assumes "collectTable lines i = (j, tls, f)" "i < length lines"
  shows "set tls \<subseteq> set lines \<and> tls \<noteq> [] \<and> hd tls = lines ! i"
proof -
  let ?P = "\<lambda>(j::nat) tls (f::bool). set tls \<subseteq> set lines \<and> tls \<noteq> [] \<and> hd tls = lines ! i"
  have "?P j tls f"
  proof (rule collect_invariant [where P = ?P and lines = lines and i = i])
    show "?P (i + 1) [lines ! i] False" using assms(2) by simp
    show "collect lines i (i + 1) [lines ! i] False = (j, tls, f)"
      using assms by (simp add: collectTable_def)
  next
    fix j tls f c j' tls' f'
    assume "?P j tls f" "j < length lines" "j < i + 50"
      "collectStep lines i j tls f = (c, j', tls', f')"
    then show "?P j' tls' f'"
      by (auto simp: collectStep_def Let_def split: if_splits)
  qed
  then show ?thesis .
qed

lemma collectTable_no_separator:
  assumes "collectTable lines i = (j, tls, False)" "includesStr (lines ! i) [124]"
  shows "(\<forall>l\<in>set tls. includesStr l [124] \<and> trim l \<noteq> []) \<and>
         (\<forall>l\<in>set (drop 1 tls). \<not> isSeparatorLine l)"
proof -
  let ?P = "\<lambda>(j::nat) tls f. \<not> f \<longrightarrow> (\<forall>l\<in>set tls. includesStr l [124] \<and> trim l \<noteq> []) \<and>
         (\<forall>l\<in>set (drop 1 tls). \<not> isSeparatorLine l)"
  have "?P j tls False"
  proof (rule collect_invariant [where P = ?P and lines = lines and i = i])
    show "?P (i + 1) [lines ! i] False" using assms(2) pipe_line_nonblank by simp
    show "collect lines i (i + 1) [lines ! i] False = (j, tls, False)"
      using assms by (simp add: collectTable_def)
  next
    fix j tls f c j' tls' f'
    assume "?P j tls f" "j < length lines" "j < i + 50"
      "collectStep lines i j tls f = (c, j', tls', f')"
    then show "?P j' tls' f'"
      by (cases tls) (auto simp: collectStep_def Let_def isSeparatorLine_def split: if_splits)
  qed
  then show ?thesis by simp
qed

lemma collectTable_shape:
  assumes "collectTable lines i = (j, tls, f)" "includesStr (lines ! i) [124]"
  shows "\<forall>l\<in>set tls. includesStr l [124] \<or> trim l = []"
proof -
  let ?P = "\<lambda>(j::nat) tls (f::bool). \<forall>l\<in>set tls. includesStr l [124] \<or> trim l = []"
  have "?P j tls f"
  proof (rule collect_invariant [where P = ?P and lines = lines and i = i])
    show "?P (i + 1) [lines ! i] False" using assms(2) by simp
    show "collect lines i (i + 1) [lines ! i] False = (j, tls, f)"
      using assms by (simp add: collectTable_def)
  next
    fix j tls f c j' tls' f'
    assume "?P j tls f" "j < length lines" "j < i + 50"
      "collectStep lines i j tls f = (c, j', tls', f')"
    then show "?P j' tls' f'"
      by (auto simp: collectStep_def Let_def split: if_splits)
  qed
  then show ?thesis .
qed

lemma split_length: "length (split c s) = length (filter (\<lambda>x. x = c) s) + 1"
proof (induction s)
  case Nil
  show ?case by simp
next
  case (Cons x xs)
  then show ?case using split_nonempty [of c xs]
    by (cases "split c xs") auto
qed

lemma parseRow_nonempty: "2 \<le> pipeCount r \<Longrightarrow> parseRow r \<noteq> []"
proof -
  assume "2 \<le> pipeCount r"
  then have "3 \<le> length (map trim (split 124 r))"
    by (simp add: split_length pipeCount_def)
  then obtain a b c ds where "map trim (split 124 r) = a # b # c # ds"
    by (cases "map trim (split 124 r)" rule: list.exhaust;
        cases "tl (map trim (split 124 r))"; cases "tl (tl (map trim (split 124 r)))") auto
  then show ?thesis
    by (auto simp: parseRow_def Let_def)
qed

lemma concat_trRow_Nil:
  "\<forall>l\<in>set d. parseRow l \<noteq> [] \<Longrightarrow> concat (map trRow d) = [] \<longleftrightarrow> d = []"
  by (cases d) (auto simp: trRow_Nil)

lemma processLines_table:
  "i < length lines \<Longrightarrow> includesStr (lines ! i) [124] \<Longrightarrow> tryTable lines i = Some (h, j) \<Longrightarrow>
   processLines lines i = TablePart h # processLines lines j"
  by (subst processLines.simps) simp

lemma headerless_table_aux:
  assumes i: "i < length (split 10 s)"
    and c: "collectTable (split 10 s) i = (j, tls, False)"
    and len: "2 \<le> length tls" and sim: "allSimilar tls" and pc: "2 \<le> pipeCount (hd tls)"
  shows "tryTable (split 10 s) i =
      Some (tableTemplate (concat (map thCell (parseRow (split 10 s ! i))))
             (if concat (bodyRowList (drop 1 tls)) \<noteq> [] then concat (bodyRowList (drop 1 tls))
              else noDataRow), j) \<and>
     includesStr (split 10 s ! i) [124]"
proof -
  let ?lines = "split 10 s"
  from collectTable_lines [OF c i]
  have sub: "set tls \<subseteq> set ?lines" and ne: "tls \<noteq> []" and hd: "hd tls = ?lines ! i" by auto
  from sub split_no_sep [of 10 s] have nl: "\<forall>l\<in>set tls. 10 \<notin> set l" by auto
  have "124 \<in> set (hd tls)"
  proof (rule ccontr)
    assume "124 \<notin> set (hd tls)"
    then have "filter (\<lambda>c. c = 124) (hd tls) = []" by (auto simp: filter_empty_conv)
    with pc show False by (simp add: pipeCount_def)
  qed
  with hd have inc: "includesStr (?lines ! i) [124]" by (simp add: includesStr_single)
  from collectTable_no_separator [OF c inc]
  have nb: "\<forall>l\<in>set tls. trim l \<noteq> []" and nosep: "\<forall>l\<in>set (drop 1 tls). \<not> isSeparatorLine l"
    by auto
  from nb have f: "filter (\<lambda>l. trim l \<noteq> []) tls = tls" by simp
  have "\<forall>k. 1 \<le> k \<and> k < min (length tls) 5 \<longrightarrow> \<not> isSeparatorLine (tls ! k)"
  proof (intro allI impI)
    fix k assume k: "1 \<le> k \<and> k < min (length tls) 5"
    from ne obtain a as where as: "tls = a # as" by (cases tls) auto
    from k obtain m where m: "k = Suc m" by (cases k) auto
    with k as have "m < length as" by simp
    then have "as ! m \<in> set as" by (rule nth_mem)
    with as m have "tls ! k \<in> set (drop 1 tls)" by simp
    with nosep show "\<not> isSeparatorLine (tls ! k)" by blast
  qed
  then have fs: "findSeparator tls 1 = -1" by (rule findSeparator_none)
  from parseRow_nonempty [OF pc] have "concat (map thCell (parseRow (hd tls))) \<noteq> []"
    by (simp add: concat_cells_Nil [of thCell, OF thCell_nonempty] del: concat_eq_Nil_conv)
  with len fs hd have "convertRows tls =
      Some (tableTemplate (concat (map thCell (parseRow (?lines ! i))))
             (if concat (bodyRowList (drop 1 tls)) \<noteq> [] then concat (bodyRowList (drop 1 tls))
              else noDataRow))"
    by (simp add: convertRows_def Let_def del: concat_eq_Nil_conv)
  with convertMarkdownTable_join [OF ne nl] f
  have "convertMarkdownTable (join [10] tls) =
      Some (tableTemplate (concat (map thCell (parseRow (?lines ! i))))
             (if concat (bodyRowList (drop 1 tls)) \<noteq> [] then concat (bodyRowList (drop 1 tls))
              else noDataRow))"
    by simp
  with c len sim pc inc show ?thesis
    by (simp add: tryTable_def del: concat_eq_Nil_conv)
qed

lemma separator_table_aux:
  assumes i: "i < length (split 10 s)" and inc: "includesStr (split 10 s ! i) [124]"
    and c: "collectTable (split 10 s) i = (j, tls, True)"
    and len: "3 \<le> length tls" and sep: "isSeparatorLine (tls ! 1)"
    and cells: "parseRow (split 10 s ! i) \<noteq> []"
  shows "hd tls = split 10 s ! i \<and>
     tryTable (split 10 s) i =
      Some (tableTemplate (concat (map thCell (parseRow (hd tls))))
             (if filter (\<lambda>l. trim l \<noteq> [] \<and> parseRow l \<noteq> []) (drop 2 tls) = [] then noDataRow
              else concat (map trRow (filter (\<lambda>l. trim l \<noteq> [] \<and> parseRow l \<noteq> []) (drop 2 tls)))), j)"
proof -
  let ?lines = "split 10 s"
  let ?nb = "\<lambda>l. trim l \<noteq> []"
  let ?D = "filter (\<lambda>l. trim l \<noteq> [] \<and> parseRow l \<noteq> []) (drop 2 tls)"
  from collectTable_lines [OF c i]
  have sub: "set tls \<subseteq> set ?lines" and ne: "tls \<noteq> []" and hd: "hd tls = ?lines ! i" by auto
  from sub split_no_sep [of 10 s] have nl: "\<forall>l\<in>set tls. 10 \<notin> set l" by auto
  from collectTable_shape [OF c inc]
  have shape: "\<forall>l\<in>set tls. includesStr l [124] \<or> trim l = []" .
  from len obtain h0 sp rest where tls: "tls = h0 # sp # rest"
    by (cases tls; cases "tl tls") auto
  from hd tls have h0: "h0 = ?lines ! i" by simp
  from sep tls have sp: "isSeparatorLine sp" by simp
  from inc h0 have nbh: "trim h0 \<noteq> []" by (simp add: pipe_line_nonblank)
  from sp have nbs: "trim sp \<noteq> []" by (simp add: isSeparatorLine_def pipe_line_nonblank)
  from nbh nbs tls have f: "filter ?nb tls = h0 # sp # filter ?nb rest" by simp
  have fs: "findSeparator (h0 # sp # filter ?nb rest) 1 = 1"
    using findSeparator_at [of 1 "h0 # sp # filter ?nb rest"] sp by simp
  from shape tls have "\<forall>l\<in>set rest. trim l \<noteq> [] \<longrightarrow> includesStr l [124]" by auto
  then have "filter (\<lambda>row. trim row \<noteq> [] \<and> includesStr row [124] \<and> parseRow row \<noteq> []) (filter ?nb rest)
      = filter (\<lambda>l. trim l \<noteq> [] \<and> parseRow l \<noteq> []) rest"
    by (induction rest) auto
  then have body: "bodyRowList (filter ?nb rest) = map trRow ?D"
    by (simp add: bodyRowList_eq tls)
  have cD: "concat (map trRow ?D) = [] \<longleftrightarrow> ?D = []"
    by (rule concat_trRow_Nil) simp
  from cells h0 have "concat (map thCell (parseRow h0)) \<noteq> []"
    by (simp add: concat_cells_Nil [of thCell, OF thCell_nonempty] del: concat_eq_Nil_conv)
  with fs body cD have "convertRows (h0 # sp # filter ?nb rest) =
      Some (tableTemplate (concat (map thCell (parseRow h0)))
             (if ?D = [] then noDataRow else concat (map trRow ?D)))"
    by (simp add: convertRows_def Let_def del: concat_eq_Nil_conv)
  with convertMarkdownTable_join [OF ne nl] f
  have "convertMarkdownTable (join [10] tls) =
      Some (tableTemplate (concat (map thCell (parseRow h0)))
             (if ?D = [] then noDataRow else concat (map trRow ?D)))"
    by simp
  with c len hd h0 show ?thesis
    by (simp add: tryTable_def del: concat_eq_Nil_conv)
qed

text \<open>
  C10. Table detection is bounded in two ways. The look-ahead of the Block Formatter collects
  at most 50 lines into one candidate and stops at most 50 lines past the line it started at.
  The Table Converter looks for the separator among the rows 1 to 4 only: its separator index
  is -1 or lies between 1 and 4, and when none of the rows 1 to 4 is a separator line the
  block is rendered as without separator, every row after the first being a data row, whatever
  the rows from index 5 on look like.
\<close>

theorem table_detection_bounded:
  "(collectTable lines i = (j, tableLines, foundSeparator) \<longrightarrow>
      length tableLines \<le> 50 \<and> j \<le> i + 50) \<and>
   (findSeparator rows 1 = -1 \<or> (1 \<le> findSeparator rows 1 \<and> findSeparator rows 1 \<le> 4)) \<and>
   ((\<forall>k. 1 \<le> k \<and> k < 5 \<and> k < length rows \<longrightarrow> \<not> isSeparatorLine (rows ! k)) \<longrightarrow>
      findSeparator rows 1 = -1) \<and>
   (2 \<le> length (tableRows t) \<and>
    (\<forall>k. 1 \<le> k \<and> k < 5 \<and> k < length (tableRows t) \<longrightarrow> \<not> isSeparatorLine (tableRows t ! k)) \<longrightarrow>
      convertMarkdownTable t =
        (if parseRow (hd (tableRows t)) = [] then None
         else Some (tableTemplate (concat (map thCell (parseRow (hd (tableRows t)))))
                      (if concat (bodyRowList (drop 1 (tableRows t))) \<noteq> []
                       then concat (bodyRowList (drop 1 (tableRows t))) else noDataRow))))"
proof (intro conjI impI)
  assume "collectTable lines i = (j, tableLines, foundSeparator)"
  from collectTable_bound [OF this]
  show "length tableLines \<le> 50" and "j \<le> i + 50" by auto
next
  from findSeparator_range [of rows 1]
  show "findSeparator rows 1 = -1 \<or> (1 \<le> findSeparator rows 1 \<and> findSeparator rows 1 \<le> 4)"
    by auto
next
  assume "\<forall>k. 1 \<le> k \<and> k < 5 \<and> k < length rows \<longrightarrow> \<not> isSeparatorLine (rows ! k)"
  then show "findSeparator rows 1 = -1"
    by (intro findSeparator_none) auto
next
  assume a: "2 \<le> length (tableRows t) \<and>
    (\<forall>k. 1 \<le> k \<and> k < 5 \<and> k < length (tableRows t) \<longrightarrow> \<not> isSeparatorLine (tableRows t ! k))"
  then have "findSeparator (tableRows t) 1 = -1"
    by (intro findSeparator_none) auto
  with a show "convertMarkdownTable t =
        (if parseRow (hd (tableRows t)) = [] then None
         else Some (tableTemplate (concat (map thCell (parseRow (hd (tableRows t)))))
                      (if concat (bodyRowList (drop 1 (tableRows t))) \<noteq> []
                       then concat (bodyRowList (drop 1 (tableRows t))) else noDataRow)))"
    by (simp add: convertMarkdownTable_rows convertRows_def Let_def
          concat_cells_Nil [of thCell, OF thCell_nonempty] del: concat_eq_Nil_conv)
qed

theorem table_detection_bounded_witness:
  "collectTable lateSeparator 0 = (7, lateSeparator, True) \<and>
   length lateSeparator \<le> 50 \<and>
   isSeparatorLine (lateSeparator ! 5) \<and>
   findSeparator lateSeparator 1 = -1 \<and>
   convertMarkdownTable (join [10] lateSeparator) =
     Some (tableTemplate (js ''<th>H</th>'')
       (js ''<tr><td>a</td></tr><tr><td>b</td></tr><tr><td>c</td></tr><tr><td>d</td></tr><tr><td>---</td></tr><tr><td>1</td></tr>''))"
proof -
  let ?t = "join [10] lateSeparator"
  have c: "collectTable lateSeparator 0 = (7, lateSeparator, True)" by code_simp
  have r: "tableRows ?t = lateSeparator" by code_simp
  have s5: "isSeparatorLine (lateSeparator ! 5)" by code_simp
  have n: "\<forall>k\<in>{1..<5}. \<not> isSeparatorLine (lateSeparator ! k)" by code_simp
  then have n': "\<forall>k. 1 \<le> k \<and> k < 5 \<and> k < length lateSeparator \<longrightarrow> \<not> isSeparatorLine (lateSeparator ! k)"
    by auto
  have l: "2 \<le> length (tableRows ?t)" unfolding r by code_simp
  have v: "(if parseRow (hd lateSeparator) = [] then None
         else Some (tableTemplate (concat (map thCell (parseRow (hd lateSeparator))))
                      (if concat (bodyRowList (drop 1 lateSeparator)) \<noteq> []
                       then concat (bodyRowList (drop 1 lateSeparator)) else noDataRow))) =
     Some (tableTemplate (js ''<th>H</th>'')
       (js ''<tr><td>a</td></tr><tr><td>b</td></tr><tr><td>c</td></tr><tr><td>d</td></tr><tr><td>---</td></tr><tr><td>1</td></tr>''))"
    by code_simp
  note T = table_detection_bounded [of lateSeparator 0 7 lateSeparator True lateSeparator ?t, unfolded r]
  from T c have b: "length lateSeparator \<le> 50" by blast
  from T n' have f: "findSeparator lateSeparator 1 = -1" by blast
  from T l [unfolded r] n'
  have "convertMarkdownTable ?t =
     (if parseRow (hd lateSeparator) = [] then None
         else Some (tableTemplate (concat (map thCell (parseRow (hd lateSeparator))))
                      (if concat (bodyRowList (drop 1 lateSeparator)) \<noteq> []
                       then concat (bodyRowList (drop 1 lateSeparator)) else noDataRow)))"
    by blast
  then have "convertMarkdownTable ?t =
     Some (tableTemplate (js ''<th>H</th>'')
       (js ''<tr><td>a</td></tr><tr><td>b</td></tr><tr><td>c</td></tr><tr><td>d</td></tr><tr><td>---</td></tr><tr><td>1</td></tr>''))"
    by (simp only: v)
  with c b s5 f show ?thesis by blast
qed

text \<open>
  C4, as stated, fails: two lines with one pipe each are collected without a separator, their
  pipe counts are equal, and yet the block is formatted line by line, because the scan also
  asks for at least two pipes in the first line (\<^verbatim>\<open>firstPipeCount >= 2\<close>).
\<close>

theorem headerless_table_counterexample:
  "collectTable onePipeLines 0 = (2, onePipeLines, False) \<and>
   length onePipeLines = 2 \<and>
   list_all (\<lambda>l. includesStr l [124]) onePipeLines \<and>
   map pipeCount onePipeLines = [1, 1] \<and>
   allSimilar onePipeLines \<and>
   tryTable onePipeLines 0 = None \<and>
   formatMessage (join [10] onePipeLines) =
     js ''<div class=\"regular-line\">a|b</div><div class=\"regular-line\">c|d</div>''"
  by code_simp

text \<open>
  C4, amended. For every block collected from a pipe line in which no separator line was
  found, if at least two lines were collected, every collected line's pipe count is within one
  of the first line's, and the first line has at least two pipes, then the block is rendered
  as a table without separator: the first line gives the header cells, the other lines the
  data rows, and the scan goes on after the block.
\<close>

theorem headerless_table_two_pipes:
  assumes "i < length (split 10 s)"
    and "collectTable (split 10 s) i = (j, tableLines, False)"
    and "2 \<le> length tableLines" and "allSimilar tableLines"
    and "2 \<le> pipeCount (hd tableLines)"
  shows "hd tableLines = split 10 s ! i \<and>
     tryTable (split 10 s) i =
      Some (tableTemplate (concat (map thCell (parseRow (hd tableLines))))
             (if concat (bodyRowList (drop 1 tableLines)) \<noteq> []
              then concat (bodyRowList (drop 1 tableLines)) else noDataRow), j) \<and>
     processLines (split 10 s) i =
      TablePart (tableTemplate (concat (map thCell (parseRow (hd tableLines))))
             (if concat (bodyRowList (drop 1 tableLines)) \<noteq> []
              then concat (bodyRowList (drop 1 tableLines)) else noDataRow))
        # processLines (split 10 s) j"
proof -
  from collectTable_lines [OF assms(2) assms(1)]
  have hd: "hd tableLines = split 10 s ! i" by simp
  from headerless_table_aux [OF assms]
  have t: "tryTable (split 10 s) i =
      Some (tableTemplate (concat (map thCell (parseRow (hd tableLines))))
             (if concat (bodyRowList (drop 1 tableLines)) \<noteq> []
              then concat (bodyRowList (drop 1 tableLines)) else noDataRow), j)"
    and inc: "includesStr (split 10 s ! i) [124]"
    unfolding hd by blast+
  from processLines_table [OF assms(1) inc t] hd t show ?thesis by blast
qed

theorem headerless_table_two_pipes_witness:
  "collectTable (split 10 twoPipeText) 0 = (2, [js ''a|b|c'', js ''d|e|f''], False) \<and>
   allSimilar [js ''a|b|c'', js ''d|e|f''] \<and>
   pipeCount (js ''a|b|c'') = 2 \<and>
   processLines (split 10 twoPipeText) 0 =
     [TablePart (tableTemplate (js ''<th>a</th><th>b</th><th>c</th>'')
                               (js ''<tr><td>d</td><td>e</td><td>f</td></tr>''))]"
proof -
  let ?tl = "[js ''a|b|c'', js ''d|e|f'']"
  have h1: "0 < length (split 10 twoPipeText)" by code_simp
  have h2: "collectTable (split 10 twoPipeText) 0 = (2, ?tl, False)" by code_simp
  have h3: "2 \<le> length ?tl" by simp
  have h4: "allSimilar ?tl" by code_simp
  have h5: "2 \<le> pipeCount (hd ?tl)" by code_simp
  have p: "pipeCount (js ''a|b|c'') = 2" by code_simp
  have v: "TablePart (tableTemplate (concat (map thCell (parseRow (hd ?tl))))
             (if concat (bodyRowList (drop 1 ?tl)) \<noteq> []
              then concat (bodyRowList (drop 1 ?tl)) else noDataRow))
        # processLines (split 10 twoPipeText) 2 =
     [TablePart (tableTemplate (js ''<th>a</th><th>b</th><th>c</th>'')
                               (js ''<tr><td>d</td><td>e</td><td>f</td></tr>''))]"
    by code_simp
  from headerless_table_two_pipes [OF h1 h2 h3 h4 h5]
  have "processLines (split 10 twoPipeText) 0 =
      TablePart (tableTemplate (concat (map thCell (parseRow (hd ?tl))))
             (if concat (bodyRowList (drop 1 ?tl)) \<noteq> []
              then concat (bodyRowList (drop 1 ?tl)) else noDataRow))
        # processLines (split 10 twoPipeText) 2"
    by blast
  then have "processLines (split 10 twoPipeText) 0 =
     [TablePart (tableTemplate (js ''<th>a</th><th>b</th><th>c</th>'')
                               (js ''<tr><td>d</td><td>e</td><td>f</td></tr>''))]"
    by (simp only: v)
  with h2 h4 p show ?thesis by blast
qed

text \<open>
  C3, as stated, fails: in a run of a header, four rows, a separator and one more row the
  look-ahead finds the separator and collects seven lines, but the converter looks for the
  separator among the rows 1 to 4 only, so the separator is not dropped: it is rendered as a
  data row, and the table has six rows for five lines that are not separators.
\<close>

theorem table_with_separator_counterexample:
  "collectTable lateSeparator 0 = (7, lateSeparator, True) \<and>
   3 \<le> length lateSeparator \<and>
   filter isSeparatorLine lateSeparator = [js ''|---|''] \<and>
   convertMarkdownTable (join [10] lateSeparator) =
     Some (tableTemplate (js ''<th>H</th>'')
       (js ''<tr><td>a</td></tr><tr><td>b</td></tr><tr><td>c</td></tr><tr><td>d</td></tr><tr><td>---</td></tr><tr><td>1</td></tr>'')) \<and>
   bodyRowList (drop 1 lateSeparator) =
     map js [''<tr><td>a</td></tr>'', ''<tr><td>b</td></tr>'', ''<tr><td>c</td></tr>'',
             ''<tr><td>d</td></tr>'', ''<tr><td>---</td></tr>'', ''<tr><td>1</td></tr>'']"
  by code_simp

text \<open>
  C3, amended. For every run collected from a pipe line in which the line right after the
  header is a separator line, that has at least three lines and whose header has a cell, the
  table fragment takes the first collected line as header row, drops the separator, and has
  one data row for each remaining collected line that is not blank and has a cell (the
  placeholder row when there is none); the number of header cells is the number of cells of
  the header line.
\<close>

theorem table_with_separator_after_header:
  assumes "i < length (split 10 s)" and "includesStr (split 10 s ! i) [124]"
    and "collectTable (split 10 s) i = (j, tableLines, True)"
    and "3 \<le> length tableLines" and "isSeparatorLine (tableLines ! 1)"
    and "parseRow (split 10 s ! i) \<noteq> []"
  shows "hd tableLines = split 10 s ! i \<and>
     processLines (split 10 s) i =
       TablePart (tableTemplate (concat (map thCell (parseRow (hd tableLines))))
          (if filter (\<lambda>l. trim l \<noteq> [] \<and> parseRow l \<noteq> []) (drop 2 tableLines) = [] then noDataRow
           else concat (map trRow (filter (\<lambda>l. trim l \<noteq> [] \<and> parseRow l \<noteq> []) (drop 2 tableLines)))))
       # processLines (split 10 s) j \<and>
     length (map thCell (parseRow (hd tableLines))) = length (parseRow (split 10 s ! i)) \<and>
     length (map trRow (filter (\<lambda>l. trim l \<noteq> [] \<and> parseRow l \<noteq> []) (drop 2 tableLines))) =
       length (filter (\<lambda>l. trim l \<noteq> [] \<and> parseRow l \<noteq> []) (drop 2 tableLines)) \<and>
     list_all (\<lambda>l. trRow l = js ''<tr>'' @ concat (map tdCell (parseRow l)) @ js ''</tr>'')
       (filter (\<lambda>l. trim l \<noteq> [] \<and> parseRow l \<noteq> []) (drop 2 tableLines))"
proof -
  from separator_table_aux [OF assms]
  have hd: "hd tableLines = split 10 s ! i"
    and t: "tryTable (split 10 s) i =
      Some (tableTemplate (concat (map thCell (parseRow (hd tableLines))))
          (if filter (\<lambda>l. trim l \<noteq> [] \<and> parseRow l \<noteq> []) (drop 2 tableLines) = [] then noDataRow
           else concat (map trRow (filter (\<lambda>l. trim l \<noteq> [] \<and> parseRow l \<noteq> []) (drop 2 tableLines)))), j)"
    by blast+
  have "list_all (\<lambda>l. trRow l = js ''<tr>'' @ concat (map tdCell (parseRow l)) @ js ''</tr>'')
       (filter (\<lambda>l. trim l \<noteq> [] \<and> parseRow l \<noteq> []) (drop 2 tableLines))"
    by (simp add: list_all_iff trRow_eq)
  with processLines_table [OF assms(1) assms(2) t] hd show ?thesis by simp
qed

theorem table_with_separator_after_header_witness:
  "collectTable (split 10 wellFormedTable) 0 =
     (5, map js [''| A | B |'', ''|---|---|'', ''| 1 | 2 |'', '''', ''| 3 | 4 |''], True) \<and>
   isSeparatorLine (js ''|---|---|'') \<and>
   parseRow (js ''| A | B |'') = [js ''A'', js ''B''] \<and>
   processLines (split 10 wellFormedTable) 0 =
     [TablePart (tableTemplate (js ''<th>A</th><th>B</th>'')
        (js ''<tr><td>1</td><td>2</td></tr><tr><td>3</td><td>4</td></tr>''))]"
proof -
  let ?tl = "map js [''| A | B |'', ''|---|---|'', ''| 1 | 2 |'', '''', ''| 3 | 4 |'']"
  have h1: "0 < length (split 10 wellFormedTable)" by code_simp
  have h2: "includesStr (split 10 wellFormedTable ! 0) [124]" by code_simp
  have h3: "collectTable (split 10 wellFormedTable) 0 = (5, ?tl, True)" by code_simp
  have h4: "3 \<le> length ?tl" by simp
  have h5: "isSeparatorLine (?tl ! 1)" by code_simp
  have h6: "parseRow (split 10 wellFormedTable ! 0) \<noteq> []" by code_simp
  have s: "isSeparatorLine (js ''|---|---|'')" by code_simp
  have p: "parseRow (js ''| A | B |'') = [js ''A'', js ''B'']" by code_simp
  have v: "TablePart (tableTemplate (concat (map thCell (parseRow (hd ?tl))))
          (if filter (\<lambda>l. trim l \<noteq> [] \<and> parseRow l \<noteq> []) (drop 2 ?tl) = [] then noDataRow
           else concat (map trRow (filter (\<lambda>l. trim l \<noteq> [] \<and> parseRow l \<noteq> []) (drop 2 ?tl)))))
       # processLines (split 10 wellFormedTable) 5 =
     [TablePart (tableTemplate (js ''<th>A</th><th>B</th>'')
        (js ''<tr><td>1</td><td>2</td></tr><tr><td>3</td><td>4</td></tr>''))]"
    by code_simp
  from table_with_separator_after_header [OF h1 h2 h3 h4 h5 h6]
  have "processLines (split 10 wellFormedTable) 0 =
       TablePart (tableTemplate (concat (map thCell (parseRow (hd ?tl))))
          (if filter (\<lambda>l. trim l \<noteq> [] \<and> parseRow l \<noteq> []) (drop 2 ?tl) = [] then noDataRow
           else concat (map trRow (filter (\<lambda>l. trim l \<noteq> [] \<and> parseRow l \<noteq> []) (drop 2 ?tl)))))
       # processLines (split 10 wellFormedTable) 5"
    by blast
  then have "processLines (split 10 wellFormedTable) 0 =
     [TablePart (tableTemplate (js ''<th>A</th><th>B</th>'')
        (js ''<tr><td>1</td><td>2</td></tr><tr><td>3</td><td>4</td></tr>''))]"
    by (simp only: v)
  with h3 s p show ?thesis by blast
qed

section \<open>Escaping in the formatted prose\<close>





















































































section \<open>Properties of the Visualization Mounter\<close>

lemma pollPlotly_le: "pollPlotly av k \<le> 5000"
proof (induction av k rule: pollPlotly.induct)
  case (1 av k)
  then show ?case by (subst pollPlotly.simps) auto
qed

lemma pollPlotly_never: "\<forall>t\<le>5000. \<not> av t \<Longrightarrow> pollPlotly av k = 5000"
proof (induction av k rule: pollPlotly.induct)
  case (1 av k)
  show ?case
  proof (cases "50 \<le> k")
    case True
    then show ?thesis by (subst pollPlotly.simps) simp
  next
    case False
    then have "100 * k \<le> 5000" by simp
    with "1.prems" have n: "\<not> av (100 * k)" by blast
    from "1.IH" [OF False n "1.prems"] False n show ?thesis
      by (subst pollPlotly.simps) simp
  qed
qed

lemma waitForPlotly_le: "waitForPlotly av \<le> 5000"
  by (simp add: waitForPlotly_def pollPlotly_le)

lemma waitForPlotly_never: "\<forall>t\<le>5000. \<not> av t \<Longrightarrow> waitForPlotly av = 5000"
  by (simp add: waitForPlotly_def pollPlotly_never)

text \<open>
  C7. The wait for the charting runtime ends within 5000 milliseconds. If \<^verbatim>\<open>Plotly\<close>
  is unavailable during the whole wait, the mount attempt (non-empty markup, mount point
  attached when the timer fires and when the wait is over) ends with the mount point holding
  exactly the inline error message that the library failed to load, and no exception leaves
  the call.
\<close>

theorem plotly_unavailable_inline_error:
  "waitForPlotly (plotlyAt env) \<le> 5000 \<and>
   ((\<forall>t\<le>5000. \<not> plotlyAt env t) \<and> s \<noteq> [] \<and> containerAtTimer env \<and> containerAfterWait env \<longrightarrow>
      mountVisualization env (Some s) messageIndex children = ([Markup plotlyError], None))"
proof (intro conjI impI)
  show "waitForPlotly (plotlyAt env) \<le> 5000" by (rule waitForPlotly_le)
next
  assume a: "(\<forall>t\<le>5000. \<not> plotlyAt env t) \<and> s \<noteq> [] \<and> containerAtTimer env \<and> containerAfterWait env"
  then have "waitForPlotly (plotlyAt env) = 5000" by (intro waitForPlotly_never) blast
  moreover from a have "\<not> plotlyAt env 5000" by simp
  ultimately show "mountVisualization env (Some s) messageIndex children = ([Markup plotlyError], None)"
    using a by (simp add: mountVisualization_def renderVisualization_def)
qed

theorem plotly_unavailable_inline_error_witness:
  "waitForPlotly (plotlyAt idleBrowser) = 5000 \<and>
   mountVisualization idleBrowser (Some (js ''<html><body><div id=\"chart\"></div></body></html>'')) 0 [] =
     ([Markup (js ''<p style=\"color: red;\">Error: Plotly library failed to load</p>'')], None)"
proof -
  have h: "(\<forall>t\<le>5000. \<not> plotlyAt idleBrowser t) \<and>
      js ''<html><body><div id=\"chart\"></div></body></html>'' \<noteq> [] \<and>
      containerAtTimer idleBrowser \<and> containerAfterWait idleBrowser"
    by (simp add: idleBrowser_def js_def)
  then have "waitForPlotly (plotlyAt idleBrowser) = 5000" by (intro waitForPlotly_never) blast
  with plotly_unavailable_inline_error
         [of idleBrowser "js ''<html><body><div id=\"chart\"></div></body></html>''" 0 "[]"] h
  show ?thesis by (simp add: plotlyError_def)
qed

lemma runScripts_count:
  "runScripts env oid uid scs (cs, f) = ((cs', f'), e) \<Longrightarrow>
   length (filter isChartDiv cs') \<le> length (filter isChartDiv cs)"
proof (induction scs arbitrary: cs f)
  case Nil
  then show ?case by simp
next
  case (Cons sc scs)
  show ?case
  proof (cases "src sc = [] \<and> textContent sc \<noteq> []")
    case False
    with Cons.prems have "runScripts env oid uid scs (cs, f) = ((cs', f'), e)" by auto
    from Cons.IH [OF this] show ?thesis .
  next
    case True
    show ?thesis
    proof (cases "rewriteIds env (textContent sc) oid uid")
      case None
      with True Cons.prems show ?thesis by auto
    next
      case (Some c)
      show ?thesis
      proof (cases "runScript env c")
        case Plotted
        with True Some Cons.prems have "runScripts env oid uid scs (cs, True) = ((cs', f'), e)" by simp
        from Cons.IH [OF this] show ?thesis .
      next
        case ParseError
        with True Some Cons.prems
        have "runScripts env oid uid scs (cs @ [ScriptNode c], True) = ((cs', f'), e)" by simp
        from Cons.IH [OF this] show ?thesis by (simp add: isChartDiv_def)
      next
        case NoDeclarations
        with True Some Cons.prems
        have "runScripts env oid uid scs (cs @ [ScriptNode c], True) = ((cs', f'), e)" by simp
        from Cons.IH [OF this] show ?thesis by (simp add: isChartDiv_def)
      next
        case (Thrown m)
        with True Some Cons.prems
        have "runScripts env oid uid scs
           ((if containerAfterWait env then [Markup (renderError m)] else cs), True) = ((cs', f'), e)"
          by simp
        from Cons.IH [OF this] show ?thesis by (simp add: isChartDiv_def split: if_splits)
      qed
    qed
  qed
qed

lemma runScripts_success:
  "\<forall>sc\<in>set scs. inlineScript sc \<longrightarrow>
      (\<exists>c. rewriteIds env (textContent sc) oid uid = Some c \<and> (\<forall>m. runScript env c \<noteq> Thrown m)) \<Longrightarrow>
   runScripts env oid uid scs (cs, f) = ((cs', f'), e) \<Longrightarrow>
   filter isChartDiv cs' = filter isChartDiv cs \<and> e = None \<and>
   (f' \<longleftrightarrow> f \<or> (\<exists>sc\<in>set scs. inlineScript sc))"
proof (induction scs arbitrary: cs f)
  case Nil
  then show ?case by auto
next
  case (Cons sc scs)
  from Cons.prems(1) have rest: "\<forall>sc\<in>set scs. inlineScript sc \<longrightarrow>
      (\<exists>c. rewriteIds env (textContent sc) oid uid = Some c \<and> (\<forall>m. runScript env c \<noteq> Thrown m))"
    by simp
  show ?case
  proof (cases "inlineScript sc")
    case False
    with Cons.prems(2) have "runScripts env oid uid scs (cs, f) = ((cs', f'), e)"
      by (auto simp: inlineScript_def)
    from Cons.IH [OF rest this] False show ?thesis by auto
  next
    case True
    with Cons.prems(1) obtain c where c: "rewriteIds env (textContent sc) oid uid = Some c"
      and nt: "\<forall>m. runScript env c \<noteq> Thrown m" by auto
    from True have i: "src sc = [] \<and> textContent sc \<noteq> []" by (simp add: inlineScript_def)
    show ?thesis
    proof (cases "runScript env c")
      case Plotted
      with i c Cons.prems(2) have "runScripts env oid uid scs (cs, True) = ((cs', f'), e)" by simp
      from Cons.IH [OF rest this] True show ?thesis by auto
    next
      case ParseError
      with i c Cons.prems(2)
      have "runScripts env oid uid scs (cs @ [ScriptNode c], True) = ((cs', f'), e)" by simp
      from Cons.IH [OF rest this] True show ?thesis by (auto simp: isChartDiv_def)
    next
      case NoDeclarations
      with i c Cons.prems(2)
      have "runScripts env oid uid scs (cs @ [ScriptNode c], True) = ((cs', f'), e)" by simp
      from Cons.IH [OF rest this] True show ?thesis by (auto simp: isChartDiv_def)
    next
      case (Thrown m)
      with nt show ?thesis by blast
    qed
  qed
qed

lemma renderVisualization_fresh:
  "containerAfterWait env \<Longrightarrow>
   renderVisualization env s idx children = renderVisualization env s idx []"
  by (simp add: renderVisualization_def)

lemma renderVisualization_count:
  assumes "containerAfterWait env"
  shows "length (filter isChartDiv (fst (renderVisualization env s idx children))) \<le> 1"
proof -
  have m: "filter isChartDiv [Markup x] = []" for x by (simp add: isChartDiv_def)
  show ?thesis
  proof (cases "plotlyAt env (waitForPlotly (plotlyAt env))")
    case False
    with assms show ?thesis by (simp add: renderVisualization_def m)
  next
    case True
    obtain bo scripts where fb: "findBody env s = (bo, scripts)" by (cases "findBody env s")
    show ?thesis
    proof (cases bo)
      case None
      with True assms fb show ?thesis by (simp add: renderVisualization_def m)
    next
      case (Some b)
      show ?thesis
      proof (cases "firstWithId b")
        case None
        with True assms fb Some show ?thesis by (simp add: renderVisualization_def m)
      next
        case (Some chartDiv)
        let ?oid = "elId chartDiv" and ?uid = "uniqueId (elId chartDiv) idx"
        let ?new = "ChartDiv ?uid (copyStyle chartDiv)"
        obtain cs' f' e where r: "runScripts env ?oid ?uid scripts ([?new], False) = ((cs', f'), e)"
          by (cases "runScripts env ?oid ?uid scripts ([?new], False)") auto
        from runScripts_count [OF r] have "length (filter isChartDiv cs') \<le> 1"
          by (simp add: isChartDiv_def)
        with True assms fb \<open>bo = Some b\<close> Some r show ?thesis
          by (cases e) (simp_all add: renderVisualization_def Let_def m)
      qed
    qed
  qed
qed

text \<open>
  C8, as stated, fails: when the markup has a chart element but no inline script, every
  render of the slot, the first and the repeated one, ends with the error message alone in the
  mount point, which then contains no chart container, not exactly one.
\<close>

theorem remount_exactly_one_chart_counterexample:
  "mountVisualization (readyBrowser []) (Some (js ''<html><body><div id=\"chart\"></div></body></html>'')) 0 [] =
     ([Markup noScriptError], None) \<and>
   mountVisualization (readyBrowser []) (Some (js ''<html><body><div id=\"chart\"></div></body></html>'')) 0 [Markup noScriptError] =
     ([Markup noScriptError], None) \<and>
   length (filter isChartDiv
     (fst (mountVisualization (readyBrowser []) (Some (js ''<html><body><div id=\"chart\"></div></body></html>'')) 0
            [Markup noScriptError]))) = 0"
  by (simp add: mountVisualization_def renderVisualization_def readyBrowser_def findBody_def
        waitForPlotly_def js_def isChartDiv_def chartElement_def Let_def)

text \<open>
  C8, amended. Rendering the same message slot again does not accumulate charts: for
  non-empty markup and with the mount point attached, the children of the mount point after a
  render do not depend on the children before it, and they contain at most one chart
  container. They contain exactly one, named by the original id and the message index, and no
  exception leaves the call, when the runtime is available, the markup gives a body with an
  element that has an id and at least one inline script, and for every inline script the
  pattern built from the id is accepted and nothing is thrown outside the inner handler.
\<close>

theorem remount_does_not_accumulate:
  "(s \<noteq> [] \<and> containerAtTimer env \<and> containerAfterWait env \<longrightarrow>
      mountVisualization env (Some s) idx children = mountVisualization env (Some s) idx [] \<and>
      length (filter isChartDiv (fst (mountVisualization env (Some s) idx children))) \<le> 1) \<and>
   (s \<noteq> [] \<and> containerAtTimer env \<and> containerAfterWait env \<and>
    plotlyAt env (waitForPlotly (plotlyAt env)) \<and>
    findBody env s = (Some b, scripts) \<and> firstWithId b = Some chartDiv \<and>
    (\<exists>sc\<in>set scripts. inlineScript sc) \<and>
    (\<forall>sc\<in>set scripts. inlineScript sc \<longrightarrow>
       (\<exists>c. rewriteIds env (textContent sc) (elId chartDiv) (uniqueId (elId chartDiv) idx) = Some c \<and>
            (\<forall>m. runScript env c \<noteq> Thrown m))) \<longrightarrow>
      filter isChartDiv (fst (mountVisualization env (Some s) idx children)) =
        [ChartDiv (uniqueId (elId chartDiv) idx) (copyStyle chartDiv)] \<and>
      snd (mountVisualization env (Some s) idx children) = None)"
proof (intro conjI impI)
  assume a: "s \<noteq> [] \<and> containerAtTimer env \<and> containerAfterWait env"
  then show "mountVisualization env (Some s) idx children = mountVisualization env (Some s) idx []"
    using renderVisualization_fresh [of env s idx children]
    by (simp add: mountVisualization_def)
  from a show "length (filter isChartDiv (fst (mountVisualization env (Some s) idx children))) \<le> 1"
    using renderVisualization_count [of env s idx children]
    by (simp add: mountVisualization_def)
next
  assume a: "s \<noteq> [] \<and> containerAtTimer env \<and> containerAfterWait env \<and>
    plotlyAt env (waitForPlotly (plotlyAt env)) \<and>
    findBody env s = (Some b, scripts) \<and> firstWithId b = Some chartDiv \<and>
    (\<exists>sc\<in>set scripts. inlineScript sc) \<and>
    (\<forall>sc\<in>set scripts. inlineScript sc \<longrightarrow>
       (\<exists>c. rewriteIds env (textContent sc) (elId chartDiv) (uniqueId (elId chartDiv) idx) = Some c \<and>
            (\<forall>m. runScript env c \<noteq> Thrown m)))"
  let ?oid = "elId chartDiv" and ?uid = "uniqueId (elId chartDiv) idx"
  let ?new = "ChartDiv ?uid (copyStyle chartDiv)"
  obtain cs' f' e where r: "runScripts env ?oid ?uid scripts ([?new], False) = ((cs', f'), e)"
    by (cases "runScripts env ?oid ?uid scripts ([?new], False)") auto
  from a have ok: "\<forall>sc\<in>set scripts. inlineScript sc \<longrightarrow>
       (\<exists>c. rewriteIds env (textContent sc) ?oid ?uid = Some c \<and> (\<forall>m. runScript env c \<noteq> Thrown m))"
    by blast
  from runScripts_success [OF ok r] a
  have res: "filter isChartDiv cs' = [?new]" "e = None" "f'"
    by (auto simp: isChartDiv_def)
  from a r res have m: "mountVisualization env (Some s) idx children = (cs', None)"
    by (simp add: mountVisualization_def renderVisualization_def Let_def)
  from m res show "filter isChartDiv (fst (mountVisualization env (Some s) idx children)) = [?new]"
    by simp
  from m show "snd (mountVisualization env (Some s) idx children) = None" by simp
qed

theorem remount_does_not_accumulate_witness:
  "mountVisualization (readyBrowser [plotScript]) (Some chartMarkup) 0 [] =
     ([ChartDiv (js ''chart-0'') (HeightWidth (js ''440px'') (js ''100%'')),
       ScriptNode (js ''Plotly.newPlot(\"chart-0\", data, layout);'')], None) \<and>
   mountVisualization (readyBrowser [plotScript]) (Some chartMarkup) 0
     [ChartDiv (js ''chart-0'') (HeightWidth (js ''440px'') (js ''100%'')),
      ScriptNode (js ''Plotly.newPlot(\"chart-0\", data, layout);'')] =
   mountVisualization (readyBrowser [plotScript]) (Some chartMarkup) 0 [] \<and>
   filter isChartDiv
     (fst (mountVisualization (readyBrowser [plotScript]) (Some chartMarkup) 0
        [ChartDiv (js ''chart-0'') (HeightWidth (js ''440px'') (js ''100%'')),
         ScriptNode (js ''Plotly.newPlot(\"chart-0\", data, layout);'')])) =
     [ChartDiv (js ''chart-0'') (HeightWidth (js ''440px'') (js ''100%''))]"
proof -
  let ?env = "readyBrowser [plotScript]"
  let ?s = "chartMarkup"
  let ?old = "[ChartDiv (js ''chart-0'') (HeightWidth (js ''440px'') (js ''100%'')),
      ScriptNode (js ''Plotly.newPlot(\"chart-0\", data, layout);'')]"
  let ?b = "\<lparr>firstWithId = Some chartElement, bodyScripts = [plotScript]\<rparr>"
  have id: "elId chartElement = js ''chart''" by (simp add: chartElement_def)
  have u': "uniqueId (js ''chart'') 0 = js ''chart-0''"
    by (simp add: uniqueId_def js_def numberToString.simps [of 0])
  have u: "uniqueId (elId chartElement) 0 = js ''chart-0''"
    by (simp only: id u')
  have st: "copyStyle chartElement = HeightWidth (js ''440px'') (js ''100%'')"
    by (simp add: copyStyle_def chartElement_def)
  have ne: "chartMarkup \<noteq> []" by (simp add: chartMarkup_def js_def)
  have inl: "src plotScript = [] \<and> textContent plotScript \<noteq> []"
    by (simp add: plotScript_def js_def)
  have first: "mountVisualization ?env (Some ?s) 0 [] = (?old, None)"
    using ne inl
    by (simp add: mountVisualization_def renderVisualization_def readyBrowser_def findBody_def
        waitForPlotly_def Let_def u' id st)
  have h1: "?s \<noteq> [] \<and> containerAtTimer ?env \<and> containerAfterWait ?env"
    using ne by (simp add: readyBrowser_def)
  have h2: "plotlyAt ?env (waitForPlotly (plotlyAt ?env))"
    by (simp add: readyBrowser_def)
  have h3: "findBody ?env ?s = (Some ?b, [plotScript])"
    by (simp add: findBody_def readyBrowser_def)
  have h4: "firstWithId ?b = Some chartElement" by simp
  have h5: "\<exists>sc\<in>set [plotScript]. inlineScript sc"
    using inl by (simp add: inlineScript_def)
  have h6: "\<forall>sc\<in>set [plotScript]. inlineScript sc \<longrightarrow>
       (\<exists>c. rewriteIds ?env (textContent sc) (elId chartElement) (uniqueId (elId chartElement) 0) = Some c \<and>
            (\<forall>m. runScript ?env c \<noteq> Thrown m))"
    by (simp add: readyBrowser_def)
  note T = remount_does_not_accumulate [of ?s ?env 0 ?old ?b "[plotScript]" chartElement]
  from T h1 have same: "mountVisualization ?env (Some ?s) 0 ?old = mountVisualization ?env (Some ?s) 0 []"
    by blast
  from T h1 h2 h3 h4 h5 h6
  have "filter isChartDiv (fst (mountVisualization ?env (Some ?s) 0 ?old)) =
      [ChartDiv (uniqueId (elId chartElement) 0) (copyStyle chartElement)]"
    by blast
  with u st have one: "filter isChartDiv (fst (mountVisualization ?env (Some ?s) 0 ?old)) =
      [ChartDiv (js ''chart-0'') (HeightWidth (js ''440px'') (js ''100%''))]"
    by simp
  from first same one show ?thesis by blast
qed

end
